theory Spec2Isabelle
  imports Complex_Main "HOL-Library.Char_ord" "HOL-Library.List_Lexorder"
    "HOL-Library.Multiset" "HOL-Library.Option_ord" "HOL-Library.Sublist"
begin

section \<open>Strings of the host language\<close>

text \<open>
  A JavaScript string is a sequence of UTF-16 code units. The model has the code units
  below 0x100 (ASCII and Latin-1), one \<^typ>\<open>char\<close> each, which covers UK postcodes and the
  outcodes of the reference data. The order on strings (\<open>Char_ord\<close> with
  \<open>List_Lexorder\<close>) is the code-unit order of JavaScript's default \<^verbatim>\<open>sort()\<close>.
\<close>

definition lower_letters :: string where
  "lower_letters = ''abcdefghijklmnopqrstuvwxyz''"

definition upper_letters :: string where
  "upper_letters = ''ABCDEFGHIJKLMNOPQRSTUVWXYZ''"

definition digit_chars :: string where
  "digit_chars = ''0123456789''"

text \<open>
  White space of \<^verbatim>\<open>trim()\<close> and of the class \<^verbatim>\<open>\s\<close>: TAB, LF, VT, FF, CR, SPACE and the
  no-break space U+00A0.
\<close>

definition space_chars :: string where
  "space_chars = [CHR 0x09, CHR 0x0A, CHR 0x0B, CHR 0x0C, CHR 0x0D, CHR 0x20, CHR 0xA0]"

definition isSpace :: "char \<Rightarrow> bool" where
  "isSpace c = (c \<in> set space_chars)"

text \<open>The class \<^verbatim>\<open>\d\<close>.\<close>

definition isDigit :: "char \<Rightarrow> bool" where
  "isDigit c = (c \<in> set digit_chars)"

text \<open>The class \<^verbatim>\<open>[A-Z]\<close> of a pattern without the flag \<^verbatim>\<open>i\<close>.\<close>

definition isAZ :: "char \<Rightarrow> bool" where
  "isAZ c = (c \<in> set upper_letters)"

text \<open>The class \<^verbatim>\<open>[A-Z]\<close> under the flag \<^verbatim>\<open>i\<close>: both cases match.\<close>

definition isAZ_i :: "char \<Rightarrow> bool" where
  "isAZ_i c = (c \<in> set upper_letters \<or> c \<in> set lower_letters)"

text \<open>The class \<^verbatim>\<open>[A-Z\d]\<close>.\<close>

definition isAZ_or_digit :: "char \<Rightarrow> bool" where
  "isAZ_or_digit c = (isAZ c \<or> isDigit c)"

text \<open>
  The small letters with a capital of their own below 0x100, and their capitals: a to z,
  and the Latin-1 letters U+00E0 to U+00FE without the division sign U+00F7.
\<close>

definition small_chars :: string where
  "small_chars = lower_letters @
       [CHR 0xE0, CHR 0xE1, CHR 0xE2, CHR 0xE3, CHR 0xE4, CHR 0xE5, CHR 0xE6, CHR 0xE7,
        CHR 0xE8, CHR 0xE9, CHR 0xEA, CHR 0xEB, CHR 0xEC, CHR 0xED, CHR 0xEE, CHR 0xEF,
        CHR 0xF0, CHR 0xF1, CHR 0xF2, CHR 0xF3, CHR 0xF4, CHR 0xF5, CHR 0xF6, CHR 0xF8,
        CHR 0xF9, CHR 0xFA, CHR 0xFB, CHR 0xFC, CHR 0xFD, CHR 0xFE]"

definition capital_chars :: string where
  "capital_chars = upper_letters @
       [CHR 0xC0, CHR 0xC1, CHR 0xC2, CHR 0xC3, CHR 0xC4, CHR 0xC5, CHR 0xC6, CHR 0xC7,
        CHR 0xC8, CHR 0xC9, CHR 0xCA, CHR 0xCB, CHR 0xCC, CHR 0xCD, CHR 0xCE, CHR 0xCF,
        CHR 0xD0, CHR 0xD1, CHR 0xD2, CHR 0xD3, CHR 0xD4, CHR 0xD5, CHR 0xD6, CHR 0xD8,
        CHR 0xD9, CHR 0xDA, CHR 0xDB, CHR 0xDC, CHR 0xDD, CHR 0xDE]"

definition toUpperChar :: "char \<Rightarrow> char" where
  "toUpperChar c = (case map_of (zip small_chars capital_chars) c of Some u \<Rightarrow> u | None \<Rightarrow> c)"

text \<open>
  \<^verbatim>\<open>s.toUpperCase()\<close>: the sharp s U+00DF becomes the two letters SS. The micro sign
  U+00B5 and the y with diaeresis U+00FF, whose capitals are code units above 0xFF, stay
  as they are in the model.
\<close>

definition toUpperCase :: "string \<Rightarrow> string" where
  "toUpperCase s = concat (map (\<lambda>c. if c = CHR 0xDF then ''SS'' else [toUpperChar c]) s)"

definition trim :: "string \<Rightarrow> string" where
  "trim s = rev (dropWhile isSpace (rev (dropWhile isSpace s)))"

text \<open>\<^verbatim>\<open>xs.join(sep)\<close>\<close>

fun join :: "string \<Rightarrow> string list \<Rightarrow> string" where
  "join sep [] = []"
| "join sep [x] = x"
| "join sep (x # y # ys) = x @ sep @ join sep (y # ys)"

section \<open>Regular expressions of the source\<close>

text \<open>
  A bounded quantifier \<^verbatim>\<open>C{lo,hi}\<close> over a character class, at the head of \<open>s\<close>: the
  numbers of characters it may consume, the greedy choice first, as the backtracking
  matcher tries them.
\<close>

definition quant :: "(char \<Rightarrow> bool) \<Rightarrow> nat \<Rightarrow> nat \<Rightarrow> string \<Rightarrow> nat list" where
  "quant cls lo hi s = filter (\<lambda>n. n \<le> length s \<and> list_all cls (take n s)) (rev [lo..<Suc hi])"

text \<open>The tail \<^verbatim>\<open>\d[A-Z]{2}$\<close> shared by both patterns, for a given letter class.\<close>

definition incode :: "(char \<Rightarrow> bool) \<Rightarrow> string \<Rightarrow> bool" where
  "incode letter r = (case r of [x, y, z] \<Rightarrow> isDigit x \<and> letter y \<and> letter z | _ \<Rightarrow> False)"

text \<open>
  \<^verbatim>\<open>OUTCODE_REGEX = /^([A-Z]{1,2}\d{1,2}[A-Z]?)[\s]?\d[A-Z]{2}$/i\<close>: all the ways the
  pattern matches the whole of \<open>s\<close>, in the matcher's order, each given by its group 1.
  \<^verbatim>\<open>s.match(OUTCODE_REGEX)\<close> is the first of them.
\<close>

definition OUTCODE_REGEX_matches :: "string \<Rightarrow> string list" where
  "OUTCODE_REGEX_matches s =
     concat (map (\<lambda>a.
       concat (map (\<lambda>d.
         concat (map (\<lambda>l.
           concat (map (\<lambda>w.
               if incode isAZ_i (drop (a + d + l + w) s) then [take (a + d + l) s] else [])
             (quant isSpace 0 1 (drop (a + d + l) s))))
           (quant isAZ_i 0 1 (drop (a + d) s))))
         (quant isDigit 1 2 (drop a s))))
       (quant isAZ_i 1 2 s))"

definition OUTCODE_REGEX_match :: "string \<Rightarrow> string option" where
  "OUTCODE_REGEX_match s = (case OUTCODE_REGEX_matches s of [] \<Rightarrow> None | g # _ \<Rightarrow> Some g)"

text \<open>
  \<^verbatim>\<open>extractOutcodeFromPostcode\<close> (server/geo/outcode-targeting.cjs): the empty string is
  falsy and gives null; otherwise group 1 of the match on the trimmed, upper-cased text.
\<close>

definition extractOutcodeFromPostcode :: "string \<Rightarrow> string option" where
  "extractOutcodeFromPostcode input =
     (if input = [] then None else OUTCODE_REGEX_match (toUpperCase (trim input)))"

text \<open>
  The pattern \<^verbatim>\<open>/^([A-Z]{1,2}\d[A-Z\d]?)(\d[A-Z]{2})$/\<close> of \<^verbatim>\<open>deriveOutcodeFromPostcode\<close>
  (server/db/locations-mysql.cjs), group 1 of each way to match.
\<close>

definition derive_pattern_matches :: "string \<Rightarrow> string list" where
  "derive_pattern_matches s =
     concat (map (\<lambda>a.
       concat (map (\<lambda>d.
         concat (map (\<lambda>x.
             if incode isAZ (drop (a + d + x) s) then [take (a + d + x) s] else [])
           (quant isAZ_or_digit 0 1 (drop (a + d) s))))
         (quant isDigit 1 1 (drop a s))))
       (quant isAZ 1 2 s))"

text \<open>\<^verbatim>\<open>raw.indexOf(" ")\<close>, with None for -1.\<close>

fun indexOf_space :: "string \<Rightarrow> nat option" where
  "indexOf_space [] = None"
| "indexOf_space (c # cs) =
     (if c = CHR 0x20 then Some 0 else map_option Suc (indexOf_space cs))"

text \<open>
  \<^verbatim>\<open>deriveOutcodeFromPostcode\<close>: the match on the text without white space; failing that,
  the text up to its first space (when that is not at index 0), the text without its
  last three characters (when it has more than three), or the text itself.
\<close>

definition deriveOutcodeFromPostcode :: "string \<Rightarrow> string" where
  "deriveOutcodeFromPostcode postcode =
     (if postcode = [] then []
      else
        let raw = trim (toUpperCase postcode);
            noSpace = filter (\<lambda>c. \<not> isSpace c) raw
        in case derive_pattern_matches noSpace of
             g # _ \<Rightarrow> g
           | [] \<Rightarrow>
               (case indexOf_space raw of
                  Some (Suc sp) \<Rightarrow> take (Suc sp) raw
                | _ \<Rightarrow> if length raw > 3 then take (length raw - 3) raw else raw))"

section \<open>The reference dataset\<close>

text \<open>
  The two tables the queries read. A nullable text column is a \<^typ>\<open>string option\<close>
  (\<open>None\<close> is SQL NULL). The column types of the statistics table are not part of the
  repository, so a cell of a statistics column is what the driver may hand to JavaScript:
  null, a number (a numeric column) or a string (a text or decimal column). Rows of the
  statistics table whose outcode is NULL never satisfy \<^verbatim>\<open>outcode IN (...)\<close> and are left
  out of the model.
\<close>

datatype cell = Null | Numeric rat | Text string

record name_row =
  POSTCODE_DISTRICT :: "string option"
  COUNTY_UNITARY :: "string option"
  DISTRICT_BOROUGH :: "string option"
  REGION :: "string option"

record stats_row =
  row_outcode :: string
  row_approx_radius_km :: cell
  row_approx_diameter_km :: cell
  row_centroid_easting_m :: cell
  row_centroid_northing_m :: cell

datatype error = ConnectionFailed | QueryFailed

text \<open>
  A connection pool with the database behind it. When the server is not \<open>reachable\<close>
  every query is rejected; a table that is \<open>None\<close> makes the queries on it fail (the
  table is missing, or the query is cut off).
\<close>

record pool =
  reachable :: bool
  os_open_names :: "name_row list option"
  postcode_district_stats :: "stats_row list option"

definition query_os_open_names :: "pool \<Rightarrow> error + name_row list" where
  "query_os_open_names p =
     (if \<not> reachable p then Inl ConnectionFailed
      else case os_open_names p of None \<Rightarrow> Inl QueryFailed | Some rows \<Rightarrow> Inr rows)"

definition query_postcode_district_stats :: "pool \<Rightarrow> error + stats_row list" where
  "query_postcode_district_stats p =
     (if \<not> reachable p then Inl ConnectionFailed
      else case postcode_district_stats p of None \<Rightarrow> Inl QueryFailed | Some rows \<Rightarrow> Inr rows)"

subsection \<open>SQL operators\<close>

text \<open>
  Modelled from the spec: the collation of the text columns (the schema of the two tables
  is not part of the repository). The spec has area names matched as case-insensitive
  substrings, which is MySQL's default for \<^verbatim>\<open>utf8mb4\<close>; comparisons, \<^verbatim>\<open>DISTINCT\<close>,
  \<^verbatim>\<open>IN\<close> and \<^verbatim>\<open>ORDER BY\<close> therefore work on the case-folded text.
\<close>

definition collation_key :: "string \<Rightarrow> string" where
  "collation_key s = map toUpperChar s"

text \<open>
  \<^verbatim>\<open>subject LIKE pattern\<close> on folded text: \<^verbatim>\<open>%\<close> stands for any run of characters,
  \<^verbatim>\<open>_\<close> for any single one, and a backslash makes the character after it literal (a
  backslash that ends the pattern stands for itself).
\<close>

fun like :: "string \<Rightarrow> string \<Rightarrow> bool" where
  "like [] s = (s = [])"
| "like (p # ps) s =
     (if p = CHR ''%'' then
        like ps s \<or> (case s of [] \<Rightarrow> False | _ # t \<Rightarrow> like (p # ps) t)
      else if p = CHR ''_'' then
        (case s of [] \<Rightarrow> False | _ # t \<Rightarrow> like ps t)
      else if p = CHR 0x5C \<and> ps \<noteq> [] then
        (case s of [] \<Rightarrow> False | c # t \<Rightarrow> c = hd ps \<and> like (tl ps) t)
      else
        (case s of [] \<Rightarrow> False | c # t \<Rightarrow> c = p \<and> like ps t))"

text \<open>
  A \<^verbatim>\<open>LIKE\<close> on a nullable column inside a \<^verbatim>\<open>WHERE\<close>: NULL makes it unknown, which
  selects no row and which \<^verbatim>\<open>OR\<close> treats as false next to a true operand.
\<close>

definition sql_like :: "string option \<Rightarrow> string \<Rightarrow> bool" where
  "sql_like subject pattern =
     (case subject of None \<Rightarrow> False
      | Some s \<Rightarrow> like (collation_key pattern) (collation_key s))"

text \<open>\<^verbatim>\<open>SELECT DISTINCT\<close>: one value for each key, the first in table order.\<close>

fun distinct_by :: "('a \<Rightarrow> 'k) \<Rightarrow> 'a list \<Rightarrow> 'a list" where
  "distinct_by k [] = []"
| "distinct_by k (x # xs) = x # distinct_by k (filter (\<lambda>y. k y \<noteq> k x) xs)"

text \<open>\<^verbatim>\<open>UPPER(...)\<close>, which maps character by character.\<close>

definition UPPER :: "string \<Rightarrow> string" where
  "UPPER s = map toUpperChar s"

section \<open>server/geo/outcode-targeting.cjs\<close>

text \<open>The argument \<^verbatim>\<open>CONCAT('%', ?, '%')\<close> of each \<^verbatim>\<open>LIKE\<close> in \<^verbatim>\<open>expandAreaToOutcodes\<close>.\<close>

definition area_pattern :: "string \<Rightarrow> string" where
  "area_pattern location = ''%'' @ location @ ''%''"

text \<open>The \<^verbatim>\<open>WHERE\<close> clause of \<^verbatim>\<open>expandAreaToOutcodes\<close>, giving the selected outcode.\<close>

definition area_select :: "string \<Rightarrow> name_row \<Rightarrow> string list" where
  "area_select location r =
     (case POSTCODE_DISTRICT r of
        None \<Rightarrow> []
      | Some d \<Rightarrow>
          if d \<noteq> [] \<and>
             (sql_like (COUNTY_UNITARY r) (area_pattern location)
              \<or> sql_like (DISTRICT_BOROUGH r) (area_pattern location)
              \<or> sql_like (REGION r) (area_pattern location))
          then [d] else [])"

definition expandAreaToOutcodes :: "pool \<Rightarrow> string \<Rightarrow> error + string list" where
  "expandAreaToOutcodes p location =
     (case query_os_open_names p of
        Inl e \<Rightarrow> Inl e
      | Inr rows \<Rightarrow>
          Inr (sort_key collation_key
                 (distinct_by collation_key (concat (map (area_select location) rows)))))"

text \<open>
  A JavaScript number: a finite value, NaN or an infinity. A finite value is given by the
  rational it stands for.
\<close>

datatype number = Finite rat | NaN | Infinity | MinusInfinity

text \<open>
  What the host gives and the repository does not define: the comparison of
  \<^verbatim>\<open>a.localeCompare(b)\<close> (negative, zero or positive) and the conversion of a string to a
  number that \<^verbatim>\<open>Number(s)\<close> applies. Both are parameters of the model.
\<close>

record host =
  localeCompare :: "string \<Rightarrow> string \<Rightarrow> int"
  StringToNumber :: "string \<Rightarrow> number"

text \<open>An entry of the coverage list, with the property names of the source.\<close>

record coverage_item =
  outcode :: string
  approx_radius_km :: number
  approx_diameter_km :: number
  centroid_easting_m :: number
  centroid_northing_m :: number

text \<open>\<^verbatim>\<open>Number(v)\<close> on a cell: null becomes 0, a number is itself, a string is converted.\<close>

definition Number :: "host \<Rightarrow> cell \<Rightarrow> number" where
  "Number h v = (case v of Null \<Rightarrow> Finite 0 | Numeric x \<Rightarrow> Finite x | Text s \<Rightarrow> StringToNumber h s)"

definition stats_item :: "host \<Rightarrow> stats_row \<Rightarrow> coverage_item" where
  "stats_item h r =
     \<lparr> outcode = row_outcode r,
       approx_radius_km = Number h (row_approx_radius_km r),
       approx_diameter_km = Number h (row_approx_diameter_km r),
       centroid_easting_m = Number h (row_centroid_easting_m r),
       centroid_northing_m = Number h (row_centroid_northing_m r) \<rparr>"

text \<open>The loop \<^verbatim>\<open>for (const r of rows) map.set(r.outcode, {...})\<close>.\<close>

fun set_all :: "host \<Rightarrow> (string \<rightharpoonup> coverage_item) \<Rightarrow> stats_row list \<Rightarrow> (string \<rightharpoonup> coverage_item)" where
  "set_all h m [] = m"
| "set_all h m (r # rs) = set_all h (m(row_outcode r \<mapsto> stats_item h r)) rs"

text \<open>
  \<^verbatim>\<open>fetchOutcodeStats\<close>: no query for an empty list; otherwise the rows with
  \<^verbatim>\<open>outcode IN (...)\<close>, each stored in the Map under its own outcode.
\<close>

definition fetchOutcodeStats :: "host \<Rightarrow> pool \<Rightarrow> string list \<Rightarrow> error + (string \<rightharpoonup> coverage_item)" where
  "fetchOutcodeStats h p outcodes =
     (if outcodes = [] then Inr Map.empty
      else case query_postcode_district_stats p of
             Inl e \<Rightarrow> Inl e
           | Inr rows \<Rightarrow>
               Inr (set_all h Map.empty
                      (filter (\<lambda>r. collation_key (row_outcode r) \<in> collation_key ` set outcodes)
                         rows)))"

record platform_serializations =
  meta_bulk_text :: string
  tiktok_postal_codes :: "string list"
  linkedin_postal_codes :: "string list"
  pinterest_postal_codes :: "string list"
  google_ads_postal_codes :: "string list"

record targeting =
  postal_codes :: "string list"
  postal_code_system :: string
  coverage :: "coverage_item list"
  platform_serializations :: platform_serializations

text \<open>\<^verbatim>\<open>Array.from(new Set(xs))\<close>: the first occurrence of each element, in order.\<close>

definition from_Set :: "string list \<Rightarrow> string list" where
  "from_Set xs = rev (remdups (rev xs))"

text \<open>
  \<^verbatim>\<open>statsList.sort((a, b) => a.outcode.localeCompare(b.outcode))\<close>, for the comparison
  \<open>cmp\<close> of the host: a stable sort.
\<close>

fun insert_by :: "(string \<Rightarrow> string \<Rightarrow> int) \<Rightarrow> coverage_item \<Rightarrow> coverage_item list \<Rightarrow> coverage_item list" where
  "insert_by cmp x [] = [x]"
| "insert_by cmp x (y # ys) =
     (if cmp (outcode x) (outcode y) \<le> 0 then x # y # ys else y # insert_by cmp x ys)"

definition sort_by :: "(string \<Rightarrow> string \<Rightarrow> int) \<Rightarrow> coverage_item list \<Rightarrow> coverage_item list" where
  "sort_by cmp xs = foldr (insert_by cmp) xs []"

text \<open>
  Lines 110 to 128 of \<^verbatim>\<open>resolveTargeting\<close>, the part the spec calls \<^verbatim>\<open>serialize\<close>. Its
  inputs are the two arrays filled so far, \<^verbatim>\<open>outcodes\<close> and \<^verbatim>\<open>statsList\<close>. The step
  leaves \<^verbatim>\<open>outcodes\<close> as it is (\<^verbatim>\<open>map\<close> and \<^verbatim>\<open>Array.from\<close> build new arrays) and sorts
  \<^verbatim>\<open>statsList\<close> in place: \<^verbatim>\<open>sort\<close> returns the array it was called on, so \<^verbatim>\<open>coverage\<close> is
  \<^verbatim>\<open>statsList\<close> itself. The model returns the result object together with the contents of
  both arrays after the step. The character \<open>CHR 0x0A\<close> is the newline of
  \<^verbatim>\<open>uniq.join('\n')\<close>.
\<close>

record serialized =
  result :: targeting
  outcodes_after :: "string list"
  statsList_after :: "coverage_item list"

definition serialize :: "host \<Rightarrow> string list \<Rightarrow> coverage_item list \<Rightarrow> serialized" where
  "serialize h outcodes statsList =
     (let uniq = sort (from_Set outcodes);
          metaBulkText = join [CHR 0x0A] uniq;
          platform_serializations =
            \<lparr> meta_bulk_text = metaBulkText,
              tiktok_postal_codes = uniq,
              linkedin_postal_codes = uniq,
              pinterest_postal_codes = uniq,
              google_ads_postal_codes = uniq \<rparr>;
          sorted_stats = sort_by (localeCompare h) statsList
      in \<lparr> result =
             \<lparr> postal_codes = uniq,
               postal_code_system = ''GB_POSTCODE_DISTRICT'',
               coverage = sorted_stats,
               platform_serializations = platform_serializations \<rparr>,
           outcodes_after = outcodes,
           statsList_after = sorted_stats \<rparr>)"

text \<open>
  \<^verbatim>\<open>resolveTargeting(jobLocation, { pool })\<close>. A rejected query is \<open>Inl\<close>: the function
  has no \<^verbatim>\<open>try\<close>, so the rejection of an awaited query is the rejection of its own promise.
  Group 1 of the pattern is never empty, so a match is always truthy.
\<close>

definition resolveTargeting :: "host \<Rightarrow> pool \<Rightarrow> string \<Rightarrow> error + targeting" where
  "resolveTargeting h p jobLocation =
     (case extractOutcodeFromPostcode jobLocation of
        Some outcodeFromPC \<Rightarrow>
          (case fetchOutcodeStats h p [outcodeFromPC] of
             Inl e \<Rightarrow> Inl e
           | Inr stats \<Rightarrow>
               (case stats outcodeFromPC of
                  Some item \<Rightarrow> Inr (result (serialize h [outcodeFromPC] [item]))
                | None \<Rightarrow> Inr (result (serialize h [outcodeFromPC] []))))
      | None \<Rightarrow>
          if jobLocation \<noteq> [] \<and> trim jobLocation \<noteq> [] then
            (let area = trim jobLocation in
             case expandAreaToOutcodes p area of
               Inl e \<Rightarrow> Inl e
             | Inr expanded \<Rightarrow>
                 if expanded \<noteq> [] then
                   (case fetchOutcodeStats h p expanded of
                      Inl e \<Rightarrow> Inl e
                    | Inr stats \<Rightarrow>
                        Inr (result (serialize h expanded (List.map_filter stats expanded))))
                 else Inr (result (serialize h [] [])))
          else Inr (result (serialize h [] [])))"

section \<open>server/db/locations-mysql.cjs\<close>

text \<open>\<^verbatim>\<open>String(v)\<close> on a nullable text column.\<close>

definition String_of :: "string option \<Rightarrow> string" where
  "String_of v = (case v of None \<Rightarrow> ''null'' | Some s \<Rightarrow> s)"

text \<open>The pattern \<^verbatim>\<open>getDistrictsByCounty\<close> passes to the query.\<close>

definition needle :: "string \<Rightarrow> string" where
  "needle countyLike =
     (if CHR ''%'' \<in> set countyLike then trim countyLike else ''%'' @ trim countyLike @ ''%'')"

text \<open>
  \<^verbatim>\<open>getDistrictsByCounty\<close>: an empty list when \<^verbatim>\<open>ensurePool\<close> has no connection, when
  the text is blank, and when the query throws (the \<^verbatim>\<open>catch\<close>); otherwise the distinct
  districts of the rows with \<^verbatim>\<open>UPPER(COUNTY_UNITARY) LIKE UPPER(?)\<close>, NULL first.
\<close>

definition getDistrictsByCounty :: "pool \<Rightarrow> string \<Rightarrow> string list" where
  "getDistrictsByCounty p countyLike =
     (if \<not> reachable p then []
      else if countyLike = [] \<or> trim countyLike = [] then []
      else case query_os_open_names p of
             Inl e \<Rightarrow> []
           | Inr rows \<Rightarrow>
               map (\<lambda>d. toUpperCase (String_of d))
                 (sort_key (map_option collation_key)
                    (distinct_by (map_option collation_key)
                       (map POSTCODE_DISTRICT
                          (filter (\<lambda>r. sql_like (map_option UPPER (COUNTY_UNITARY r))
                                         (UPPER (needle countyLike)))
                             rows)))))"

section \<open>The spec's vocabulary\<close>

text \<open>
  "Contains the text as a case-insensitive substring", for a nullable administrative
  field: the folded text is a contiguous part of the folded field.
\<close>

definition field_contains :: "string \<Rightarrow> string option \<Rightarrow> bool" where
  "field_contains t f =
     (case f of None \<Rightarrow> False | Some s \<Rightarrow> sublist (collation_key t) (collation_key s))"

text \<open>
  The outcodes of the reference rows whose county/unitary, district/borough or region
  field contains the text, in table order.
\<close>

definition area_outcodes :: "name_row list \<Rightarrow> string \<Rightarrow> string list" where
  "area_outcodes rows t =
     concat (map (\<lambda>r.
       case POSTCODE_DISTRICT r of
         None \<Rightarrow> []
       | Some d \<Rightarrow>
           if d \<noteq> [] \<and> (field_contains t (COUNTY_UNITARY r)
                        \<or> field_contains t (DISTRICT_BOROUGH r)
                        \<or> field_contains t (REGION r))
           then [d] else []) rows)"

text \<open>The characters \<^verbatim>\<open>LIKE\<close> gives a meaning of their own: percent, underscore, backslash.\<close>

definition like_specials :: string where
  "like_specials = [CHR ''%'', CHR ''_'', CHR 0x5C]"

definition plain_text :: "string \<Rightarrow> bool" where
  "plain_text t = list_all (\<lambda>c. c \<notin> set like_specials) t"

text \<open>
  A bare outcode, as the spec's full-postcode pattern describes the part before the
  incode: one or two letters, one or two digits, an optional trailing letter.
\<close>

definition bare_outcode :: "string \<Rightarrow> bool" where
  "bare_outcode s =
     list_ex (\<lambda>a.
       list_ex (\<lambda>d.
         list_ex (\<lambda>l. a + d + l = length s)
           (quant isAZ_i 0 1 (drop (a + d) s)))
         (quant isDigit 1 2 (drop a s)))
       (quant isAZ_i 1 2 s)"

text \<open>An outcode in canonical form: capital letters and digits only.\<close>

definition canonical_outcode :: "string \<Rightarrow> bool" where
  "canonical_outcode s = list_all isAZ_or_digit s"

section \<open>Example data\<close>

text \<open>
  A host for the examples: it compares by code units, and its conversion knows the
  strings of the examples.
\<close>

definition cmp_code_units :: "string \<Rightarrow> string \<Rightarrow> int" where
  "cmp_code_units a b = (if a < b then - 1 else if a = b then 0 else 1)"

definition example_host :: host where
  "example_host =
     \<lparr> localeCompare = cmp_code_units,
       StringToNumber = (\<lambda>s. if s = ''2.5'' then Finite (5 / 2) else NaN) \<rparr>"

definition county_row :: "string \<Rightarrow> string \<Rightarrow> name_row" where
  "county_row d c =
     \<lparr> POSTCODE_DISTRICT = Some d, COUNTY_UNITARY = Some c,
       DISTRICT_BOROUGH = None, REGION = None \<rparr>"

text \<open>
  The scenario of the spec: the outcodes G64, KA10 and KA11, all of county "Ayrshire",
  with statistics for KA10 and KA11 only.
\<close>

definition ayrshire_pool :: pool where
  "ayrshire_pool =
     \<lparr> reachable = True,
       os_open_names = Some [county_row ''KA11'' ''Ayrshire'', county_row ''G64'' ''Ayrshire'',
                             county_row ''KA10'' ''Ayrshire''],
       postcode_district_stats =
         Some [\<lparr> row_outcode = ''KA11'', row_approx_radius_km = Numeric 4,
                 row_approx_diameter_km = Numeric 8, row_centroid_easting_m = Numeric 235000,
                 row_centroid_northing_m = Numeric 640000 \<rparr>,
               \<lparr> row_outcode = ''KA10'', row_approx_radius_km = Numeric 3,
                 row_approx_diameter_km = Numeric 6, row_centroid_easting_m = Numeric 233000,
                 row_centroid_northing_m = Numeric 631000 \<rparr>] \<rparr>"


text \<open>
  Reference data that is not tidy: an outcode stored in lower case, and a statistics row
  with a NULL radius, a negative diameter and an easting that is no numeral.
\<close>

definition untidy_pool :: pool where
  "untidy_pool =
     \<lparr> reachable = True,
       os_open_names = Some [county_row ''ka10'' ''South Ayrshire''],
       postcode_district_stats =
         Some [\<lparr> row_outcode = ''ka10'', row_approx_radius_km = Null,
                 row_approx_diameter_km = Numeric (- 5), row_centroid_easting_m = Text ''n/a'',
                 row_centroid_northing_m = Numeric 631000 \<rparr>] \<rparr>"

text \<open>The coverage entries of KA10 and KA11 in that database, and the result for "Ayrshire".\<close>

definition item_KA10 :: coverage_item where
  "item_KA10 =
     \<lparr> outcode = ''KA10'', approx_radius_km = Finite 3, approx_diameter_km = Finite 6,
       centroid_easting_m = Finite 233000, centroid_northing_m = Finite 631000 \<rparr>"

definition item_KA11 :: coverage_item where
  "item_KA11 =
     \<lparr> outcode = ''KA11'', approx_radius_km = Finite 4, approx_diameter_km = Finite 8,
       centroid_easting_m = Finite 235000, centroid_northing_m = Finite 640000 \<rparr>"

definition ayrshire_result :: targeting where
  "ayrshire_result =
     \<lparr> postal_codes = [''G64'', ''KA10'', ''KA11''],
       postal_code_system = ''GB_POSTCODE_DISTRICT'',
       coverage = [item_KA10, item_KA11],
       platform_serializations =
         \<lparr> meta_bulk_text = ''G64'' @ [CHR 0x0A] @ ''KA10'' @ [CHR 0x0A] @ ''KA11'',
           tiktok_postal_codes = [''G64'', ''KA10'', ''KA11''],
           linkedin_postal_codes = [''G64'', ''KA10'', ''KA11''],
           pinterest_postal_codes = [''G64'', ''KA10'', ''KA11''],
           google_ads_postal_codes = [''G64'', ''KA10'', ''KA11''] \<rparr> \<rparr>"

text \<open>The result without any outcode.\<close>

definition empty_result :: targeting where
  "empty_result =
     \<lparr> postal_codes = [],
       postal_code_system = ''GB_POSTCODE_DISTRICT'',
       coverage = [],
       platform_serializations =
         \<lparr> meta_bulk_text = [], tiktok_postal_codes = [], linkedin_postal_codes = [],
           pinterest_postal_codes = [], google_ads_postal_codes = [] \<rparr> \<rparr>"

section \<open>Orders of the host\<close>

text \<open>
  A comparison that orders the strings: any two are comparable, the comparison is
  transitive, and only equal strings compare as equal.
\<close>

definition orders :: "(string \<Rightarrow> string \<Rightarrow> int) \<Rightarrow> bool" where
  "orders cmp =
     ((\<forall>a b. cmp a b \<le> 0 \<or> cmp b a \<le> 0)
      \<and> (\<forall>a b c. cmp a b \<le> 0 \<and> cmp b c \<le> 0 \<longrightarrow> cmp a c \<le> 0)
      \<and> (\<forall>a b. cmp a b \<le> 0 \<and> cmp b a \<le> 0 \<longrightarrow> a = b))"

text \<open>A list of coverage entries in the order of the comparison, by outcode.\<close>

definition in_order :: "(string \<Rightarrow> string \<Rightarrow> int) \<Rightarrow> coverage_item list \<Rightarrow> bool" where
  "in_order cmp xs = sorted_wrt (\<lambda>a b. cmp (outcode a) (outcode b) \<le> 0) xs"

text \<open>The lines of a text blob: each outcode followed by a newline.\<close>

definition lines_of :: "string list \<Rightarrow> string" where
  "lines_of xs = concat (map (\<lambda>x. x @ [CHR 0x0A]) xs)"

text \<open>The outcodes of the reference table as it stores them, in table order.\<close>

definition stored_outcodes :: "pool \<Rightarrow> string list" where
  "stored_outcodes p =
     (case os_open_names p of
        None \<Rightarrow> []
      | Some rows \<Rightarrow>
          concat (map (\<lambda>r. case POSTCODE_DISTRICT r of None \<Rightarrow> [] | Some d \<Rightarrow> [d]) rows))"

section \<open>Properties\<close>

subsection \<open>Sorting and joining\<close>

lemma set_from_Set: "set (from_Set xs) = set xs"
  by (simp add: from_Set_def)

lemma distinct_from_Set: "distinct (from_Set xs)"
  by (simp add: from_Set_def)

lemma postal_codes_serialize:
  "postal_codes (result (serialize h ocs st)) = sort (from_Set ocs)"
  by (simp add: serialize_def Let_def)

lemma coverage_serialize:
  "coverage (result (serialize h ocs st)) = sort_by (localeCompare h) st"
  by (simp add: serialize_def Let_def)

lemma set_insert_by: "set (insert_by cmp x ys) = insert x (set ys)"
  by (induction ys) auto

lemma mset_insert_by: "mset (insert_by cmp x ys) = add_mset x (mset ys)"
  by (induction ys) auto

lemma sort_by_Cons: "sort_by cmp (x # xs) = insert_by cmp x (sort_by cmp xs)"
  by (simp add: sort_by_def)

lemma sort_by_Nil: "sort_by cmp [] = []"
  by (simp add: sort_by_def)

lemma mset_sort_by: "mset (sort_by cmp xs) = mset xs"
  by (induction xs) (simp_all add: sort_by_Nil sort_by_Cons mset_insert_by)

lemma set_sort_by: "set (sort_by cmp xs) = set xs"
  using mset_sort_by [of cmp xs] by (metis set_mset_mset)

lemma distinct_outcode_sort_by:
  "distinct (map outcode (sort_by cmp xs)) \<longleftrightarrow> distinct (map outcode xs)"
proof -
  have "mset (map outcode (sort_by cmp xs)) = mset (map outcode xs)"
    by (simp add: mset_sort_by)
  then show ?thesis by (rule mset_eq_imp_distinct_iff)
qed

lemma in_order_insert_by:
  assumes "orders cmp" "in_order cmp ys"
  shows "in_order cmp (insert_by cmp x ys)"
  using assms(2)
proof (induction ys)
  case Nil
  then show ?case by (simp add: in_order_def)
next
  case (Cons y ys)
  have total: "cmp (outcode x) (outcode y) \<le> 0 \<or> cmp (outcode y) (outcode x) \<le> 0"
    using assms(1) unfolding orders_def by blast
  have trans: "\<And>c. cmp (outcode x) (outcode y) \<le> 0 \<Longrightarrow> cmp (outcode y) c \<le> 0
                 \<Longrightarrow> cmp (outcode x) c \<le> 0"
    using assms(1) unfolding orders_def by blast
  have tail: "in_order cmp ys" and head: "\<forall>z \<in> set ys. cmp (outcode y) (outcode z) \<le> 0"
    using Cons.prems by (simp_all add: in_order_def)
  show ?case
  proof (cases "cmp (outcode x) (outcode y) \<le> 0")
    case True
    have "\<forall>z \<in> set ys. cmp (outcode x) (outcode z) \<le> 0"
    proof
      fix z assume "z \<in> set ys"
      then have "cmp (outcode y) (outcode z) \<le> 0" using head by blast
      then show "cmp (outcode x) (outcode z) \<le> 0" using True by (rule trans [rotated])
    qed
    then show ?thesis using True Cons.prems by (simp add: in_order_def)
  next
    case False
    then have yx: "cmp (outcode y) (outcode x) \<le> 0"
      using total by blast
    have "in_order cmp (insert_by cmp x ys)"
      using Cons.IH tail by blast
    then show ?thesis
      using False yx head by (simp add: in_order_def set_insert_by)
  qed
qed

lemma in_order_sort_by:
  assumes "orders cmp"
  shows "in_order cmp (sort_by cmp xs)"
proof (induction xs)
  case Nil
  then show ?case by (simp add: sort_by_Nil in_order_def)
next
  case (Cons x xs)
  then show ?case
    using assms by (simp add: sort_by_Cons in_order_insert_by)
qed

lemma in_order_unique:
  assumes "orders cmp"
  shows "in_order cmp xs \<Longrightarrow> in_order cmp ys \<Longrightarrow> mset xs = mset ys
           \<Longrightarrow> distinct (map outcode xs) \<Longrightarrow> xs = ys"
proof (induction xs arbitrary: ys)
  case Nil
  then show ?case by simp
next
  case (Cons x xs)
  have anti: "\<And>a b. cmp a b \<le> 0 \<Longrightarrow> cmp b a \<le> 0 \<Longrightarrow> a = b"
    using assms unfolding orders_def by blast
  from Cons.prems(3) obtain y ys' where ys: "ys = y # ys'"
    by (cases ys) auto
  have "x = y"
  proof (rule ccontr)
    assume ne: "x \<noteq> y"
    have "set (x # xs) = set ys" using Cons.prems(3) by (rule mset_eq_setD)
    then have "x \<in> set ys" by auto
    then have "x \<in> set ys'" using ne ys by simp
    then have yx: "cmp (outcode y) (outcode x) \<le> 0"
      using Cons.prems(2) ys by (auto simp: in_order_def)
    have "y \<in> set (x # xs)" using \<open>set (x # xs) = set ys\<close> ys by simp
    then have yin: "y \<in> set xs" using ne by simp
    then have xy: "cmp (outcode x) (outcode y) \<le> 0"
      using Cons.prems(1) by (auto simp: in_order_def)
    have "outcode x = outcode y" using xy yx by (rule anti)
    then have "outcode x \<in> outcode ` set xs" using yin by (rule_tac image_eqI)
    then show False using Cons.prems(4) by simp
  qed
  moreover have "xs = ys'"
  proof (rule Cons.IH)
    show "in_order cmp xs" using Cons.prems(1) by (simp add: in_order_def)
    show "in_order cmp ys'" using Cons.prems(2) ys by (simp add: in_order_def)
    show "mset xs = mset ys'" using Cons.prems(3) ys \<open>x = y\<close> by simp
    show "distinct (map outcode xs)" using Cons.prems(4) by simp
  qed
  ultimately show ?case using ys by simp
qed

lemma sort_by_permuted:
  assumes "orders cmp" "mset xs = mset ys" "distinct (map outcode xs)"
  shows "sort_by cmp xs = sort_by cmp ys"
proof (rule in_order_unique [OF assms(1)])
  show "in_order cmp (sort_by cmp xs)" "in_order cmp (sort_by cmp ys)"
    using assms(1) by (rule in_order_sort_by)+
  show "mset (sort_by cmp xs) = mset (sort_by cmp ys)"
    using assms(2) by (simp add: mset_sort_by)
  show "distinct (map outcode (sort_by cmp xs))"
    using assms(3) by (simp add: distinct_outcode_sort_by)
qed

lemma join_lines: "xs \<noteq> [] \<Longrightarrow> join [CHR 0x0A] xs @ [CHR 0x0A] = lines_of xs"
  by (induction "[CHR 0x0A]" xs rule: join.induct) (simp_all add: lines_of_def)

lemma join_butlast_lines:
  "join [CHR 0x0A] xs = (if xs = [] then [] else butlast (lines_of xs))"
proof (cases "xs = []")
  case True
  then show ?thesis by simp
next
  case False
  then have "butlast (join [CHR 0x0A] xs @ [CHR 0x0A]) = butlast (lines_of xs)"
    using join_lines [of xs] by simp
  then show ?thesis using False by simp
qed

lemma sort_from_Set_cong:
  assumes "set xs = set ys"
  shows "sort (from_Set xs) = sort (from_Set ys)"
proof (rule sorted_distinct_set_unique)
  show "set (sort (from_Set xs)) = set (sort (from_Set ys))"
    using assms by (simp add: set_from_Set)
qed (simp_all add: distinct_from_Set)

subsection \<open>The serialization step\<close>

lemma orders_cmp_code_units: "orders cmp_code_units"
  unfolding orders_def cmp_code_units_def
  by (intro conjI allI impI) (auto split: if_splits)

lemma serialize_result_fields:
  "postal_code_system (result (serialize h ocs st)) = ''GB_POSTCODE_DISTRICT''
   \<and> meta_bulk_text (platform_serializations (result (serialize h ocs st))) =
       join [CHR 0x0A] (sort (from_Set ocs))
   \<and> tiktok_postal_codes (platform_serializations (result (serialize h ocs st))) = sort (from_Set ocs)
   \<and> linkedin_postal_codes (platform_serializations (result (serialize h ocs st))) = sort (from_Set ocs)
   \<and> pinterest_postal_codes (platform_serializations (result (serialize h ocs st))) = sort (from_Set ocs)
   \<and> google_ads_postal_codes (platform_serializations (result (serialize h ocs st))) = sort (from_Set ocs)"
  by (simp add: serialize_def Let_def)

lemma serialize_arrays:
  "outcodes_after (serialize h ocs st) = ocs
   \<and> statsList_after (serialize h ocs st) = sort_by (localeCompare h) st"
  by (simp add: serialize_def Let_def)

lemma result_serialize_cong:
  assumes "sort (from_Set ocs) = sort (from_Set ocs')"
      and "sort_by (localeCompare h) st = sort_by (localeCompare h) st'"
  shows "result (serialize h ocs st) = result (serialize h ocs' st')"
  using assms by (simp add: serialize_def Let_def)

text \<open>
  Claim C6, as amended. The serialization step sorts its stats array in place; the
  outcodes array it leaves alone. Its result is determined by the set of the outcodes and
  by the coverage entries, whatever the order in which the two arrays hold them (for a
  comparison that orders the outcodes, and one entry for each outcode): \<open>postal_codes\<close> is
  the sorted list of the distinct outcodes, the tag is \<open>GB_POSTCODE_DISTRICT\<close>, the coverage
  list holds the same entries in the order of the comparison, \<open>meta_bulk_text\<close> is the
  outcodes of \<open>postal_codes\<close> one to a line with no newline at the end, and the TikTok,
  LinkedIn, Pinterest and Google entries are \<open>postal_codes\<close> itself.
\<close>

theorem serialize_output:
  assumes "orders (localeCompare h)"
      and "set outcodes = set outcodes'"
      and "mset statsList = mset statsList'"
      and "distinct (map outcode statsList)"
  shows "result (serialize h outcodes statsList) = result (serialize h outcodes' statsList')
         \<and> sorted (postal_codes (result (serialize h outcodes statsList)))
         \<and> distinct (postal_codes (result (serialize h outcodes statsList)))
         \<and> set (postal_codes (result (serialize h outcodes statsList))) = set outcodes
         \<and> postal_code_system (result (serialize h outcodes statsList)) = ''GB_POSTCODE_DISTRICT''
         \<and> mset (coverage (result (serialize h outcodes statsList))) = mset statsList
         \<and> in_order (localeCompare h) (coverage (result (serialize h outcodes statsList)))
         \<and> meta_bulk_text (platform_serializations (result (serialize h outcodes statsList))) =
             (if outcodes = [] then []
              else butlast (lines_of (postal_codes (result (serialize h outcodes statsList)))))
         \<and> tiktok_postal_codes (platform_serializations (result (serialize h outcodes statsList))) =
             postal_codes (result (serialize h outcodes statsList))
         \<and> linkedin_postal_codes (platform_serializations (result (serialize h outcodes statsList))) =
             postal_codes (result (serialize h outcodes statsList))
         \<and> pinterest_postal_codes (platform_serializations (result (serialize h outcodes statsList))) =
             postal_codes (result (serialize h outcodes statsList))
         \<and> google_ads_postal_codes (platform_serializations (result (serialize h outcodes statsList))) =
             postal_codes (result (serialize h outcodes statsList))
         \<and> outcodes_after (serialize h outcodes statsList) = outcodes
         \<and> statsList_after (serialize h outcodes statsList) =
             coverage (result (serialize h outcodes statsList))"
proof -
  let ?r = "result (serialize h outcodes statsList)"
  have pc: "postal_codes ?r = sort (from_Set outcodes)"
    by (rule postal_codes_serialize)
  have cov: "coverage ?r = sort_by (localeCompare h) statsList"
    by (rule coverage_serialize)
  have same: "?r = result (serialize h outcodes' statsList')"
    using assms(2) assms(1,3,4)
    by (intro result_serialize_cong sort_from_Set_cong sort_by_permuted)
  have empty: "sort (from_Set outcodes) = [] \<longleftrightarrow> outcodes = []"
    by (metis set_from_Set set_sort set_empty)
  have blob: "meta_bulk_text (platform_serializations ?r) =
                (if outcodes = [] then [] else butlast (lines_of (postal_codes ?r)))"
    using serialize_result_fields [of h outcodes statsList] empty
    by (simp add: pc join_butlast_lines)
  have f: "postal_code_system ?r = ''GB_POSTCODE_DISTRICT''"
    "tiktok_postal_codes (platform_serializations ?r) = postal_codes ?r"
    "linkedin_postal_codes (platform_serializations ?r) = postal_codes ?r"
    "pinterest_postal_codes (platform_serializations ?r) = postal_codes ?r"
    "google_ads_postal_codes (platform_serializations ?r) = postal_codes ?r"
    using serialize_result_fields [of h outcodes statsList] by (simp_all add: pc)
  have a: "outcodes_after (serialize h outcodes statsList) = outcodes"
    "statsList_after (serialize h outcodes statsList) = coverage ?r"
    using serialize_arrays [of h outcodes statsList] by (simp_all add: cov)
  have s: "sorted (postal_codes ?r)" "distinct (postal_codes ?r)"
    "set (postal_codes ?r) = set outcodes"
    by (simp_all add: pc distinct_from_Set set_from_Set)
  have c: "mset (coverage ?r) = mset statsList" "in_order (localeCompare h) (coverage ?r)"
    using assms(1) by (simp_all add: cov mset_sort_by in_order_sort_by)
  show ?thesis
    by (intro conjI) (fact same blob f a s c)+
qed


theorem serialize_output_witness:
  "orders (localeCompare example_host)
   \<and> set [''KA11'', ''G64'', ''KA10'', ''KA11''] = set [''G64'', ''KA10'', ''KA11'']
   \<and> mset [item_KA11, item_KA10] = mset [item_KA10, item_KA11]
   \<and> distinct (map outcode [item_KA11, item_KA10])
   \<and> result (serialize example_host [''KA11'', ''G64'', ''KA10'', ''KA11''] [item_KA11, item_KA10]) =
       result (serialize example_host [''G64'', ''KA10'', ''KA11''] [item_KA10, item_KA11])
   \<and> result (serialize example_host [''KA11'', ''G64'', ''KA10'', ''KA11''] [item_KA11, item_KA10]) =
       ayrshire_result
   \<and> statsList_after (serialize example_host [''KA11'', ''G64'', ''KA10'', ''KA11'']
         [item_KA11, item_KA10]) = coverage ayrshire_result"
proof -
  have h1: "orders (localeCompare example_host)"
    using orders_cmp_code_units by (simp add: example_host_def)
  have h2: "set [''KA11'', ''G64'', ''KA10'', ''KA11''] = set [''G64'', ''KA10'', ''KA11'']"
    by auto
  have h3: "mset [item_KA11, item_KA10] = mset [item_KA10, item_KA11]"
    by simp
  have h4: "distinct (map outcode [item_KA11, item_KA10])"
    by (simp add: item_KA10_def item_KA11_def)
  have v: "result (serialize example_host [''KA11'', ''G64'', ''KA10'', ''KA11'']
             [item_KA11, item_KA10]) = ayrshire_result"
    by code_simp
  note t = serialize_output [OF h1 h2 h3 h4]
  have "statsList_after (serialize example_host [''KA11'', ''G64'', ''KA10'', ''KA11'']
          [item_KA11, item_KA10]) = coverage ayrshire_result"
    using t v by metis
  then show ?thesis
    using h1 h2 h3 h4 v t by blast
qed

text \<open>
  Claim C6 as stated fails where it says that the inputs are not mutated: a stats array
  that holds KA11 before KA10 holds KA10 before KA11 after the step.
\<close>

theorem statsList_sorted_in_place:
  "statsList_after (serialize example_host [''KA10'', ''KA11''] [item_KA11, item_KA10]) =
     [item_KA10, item_KA11]
   \<and> [item_KA11, item_KA10] \<noteq> [item_KA10, item_KA11]
   \<and> outcodes_after (serialize example_host [''KA10'', ''KA11''] [item_KA11, item_KA10]) =
       [''KA10'', ''KA11'']"
  by code_simp

subsection \<open>Results of the resolver\<close>

lemma set_distinct_by: "set (distinct_by k xs) \<subseteq> set xs"
  by (induction k xs rule: distinct_by.induct) auto

lemma image_distinct_by: "k ` set (distinct_by k xs) = k ` set xs"
proof (induction k xs rule: distinct_by.induct)
  case (1 k)
  then show ?case by simp
next
  case (2 k x xs)
  have "k ` set (x # xs) = insert (k x) (k ` set (filter (\<lambda>y. k y \<noteq> k x) xs))"
    by auto
  then show ?case using 2 by simp
qed

lemma distinct_map_distinct_by: "distinct (map k (distinct_by k xs))"
proof (induction k xs rule: distinct_by.induct)
  case (1 k)
  then show ?case by simp
next
  case (2 k x xs)
  have "set (distinct_by k (filter (\<lambda>y. k y \<noteq> k x) xs)) \<subseteq> {y. k y \<noteq> k x}"
    using set_distinct_by [of k "filter (\<lambda>y. k y \<noteq> k x) xs"] by auto
  then show ?case using 2 by auto
qed

lemma distinct_distinct_by: "distinct (distinct_by k xs)"
  using distinct_map_distinct_by [of k xs] by (simp add: distinct_map)

lemma set_all_lookup:
  "set_all h m rs k = Some it \<Longrightarrow>
     m k = Some it \<or> (\<exists>r \<in> set rs. row_outcode r = k \<and> it = stats_item h r)"
  by (induction h m rs rule: set_all.induct) (auto split: if_splits)

lemma outcode_stats_item: "outcode (stats_item h r) = row_outcode r"
  by (simp add: stats_item_def)

lemma fetchOutcodeStats_key:
  assumes "fetchOutcodeStats h p ocs = Inr stats" "stats k = Some it"
  shows "outcode it = k"
proof (cases "ocs = []")
  case True
  then show ?thesis using assms by (auto simp: fetchOutcodeStats_def)
next
  case False
  then obtain rows where "stats = set_all h Map.empty rows"
    using assms(1) by (auto simp: fetchOutcodeStats_def split: sum.splits)
  then obtain r where "row_outcode r = k" "it = stats_item h r"
    using assms(2) set_all_lookup [of h Map.empty rows k it] by auto
  then show ?thesis by (simp add: outcode_stats_item)
qed

lemma map_filter_keys:
  assumes "\<And>k it. stats k = Some it \<Longrightarrow> outcode it = k"
  shows "map outcode (List.map_filter stats xs) = filter (\<lambda>k. stats k \<noteq> None) xs"
  using assms by (induction xs) (auto split: option.splits)

lemma expandAreaToOutcodes_distinct:
  assumes "expandAreaToOutcodes p t = Inr expanded"
  shows "distinct (map collation_key expanded)" and "distinct expanded"
proof -
  obtain rows where "expanded = sort_key collation_key
       (distinct_by collation_key (concat (map (area_select t) rows)))"
    using assms by (auto simp: expandAreaToOutcodes_def split: sum.splits)
  then have "mset (map collation_key expanded) =
       mset (map collation_key (distinct_by collation_key (concat (map (area_select t) rows))))"
    by simp
  then show "distinct (map collation_key expanded)"
    using distinct_map_distinct_by mset_eq_imp_distinct_iff by blast
  then show "distinct expanded" by (simp add: distinct_map)
qed

text \<open>The three ways \<open>resolveTargeting\<close> returns a result.\<close>

lemma resolveTargeting_cases:
  assumes "resolveTargeting h p x = Inr r"
  obtains (postcode) oc stats where "extractOutcodeFromPostcode x = Some oc"
      "fetchOutcodeStats h p [oc] = Inr stats"
      "r = result (serialize h [oc] (case stats oc of Some item \<Rightarrow> [item] | None \<Rightarrow> []))"
  | (area) expanded stats where "extractOutcodeFromPostcode x = None" "trim x \<noteq> []"
      "expandAreaToOutcodes p (trim x) = Inr expanded" "expanded \<noteq> []"
      "fetchOutcodeStats h p expanded = Inr stats"
      "r = result (serialize h expanded (List.map_filter stats expanded))"
  | (nothing) "extractOutcodeFromPostcode x = None"
      "trim x = [] \<or> expandAreaToOutcodes p (trim x) = Inr []"
      "r = result (serialize h [] [])"
proof (cases "extractOutcodeFromPostcode x")
  case (Some oc)
  then obtain stats where st: "fetchOutcodeStats h p [oc] = Inr stats"
    using assms by (auto simp: resolveTargeting_def split: sum.splits)
  then have r2: "r = result (serialize h [oc] (case stats oc of Some item \<Rightarrow> [item] | None \<Rightarrow> []))"
    using assms Some by (auto simp: resolveTargeting_def split: option.splits)
  show ?thesis by (rule postcode [OF Some st r2])
next
  case None
  show ?thesis
  proof (cases "trim x = []")
    case True
    then have r0: "r = result (serialize h [] [])"
      using assms None by (auto simp: resolveTargeting_def)
    show ?thesis
    proof (rule nothing)
      show "extractOutcodeFromPostcode x = None" by (rule None)
      show "trim x = [] \<or> expandAreaToOutcodes p (trim x) = Inr []" using True by simp
      show "r = result (serialize h [] [])" by (rule r0)
    qed
  next
    case False
    then have nonempty: "x \<noteq> []" by (auto simp: trim_def)
    then obtain expanded where ex: "expandAreaToOutcodes p (trim x) = Inr expanded"
      using assms None False by (auto simp: resolveTargeting_def Let_def split: sum.splits)
    show ?thesis
    proof (cases "expanded = []")
      case True
      then have r0: "r = result (serialize h [] [])"
        using assms None False nonempty ex by (auto simp: resolveTargeting_def Let_def)
      show ?thesis
      proof (rule nothing)
        show "extractOutcodeFromPostcode x = None" by (rule None)
        show "trim x = [] \<or> expandAreaToOutcodes p (trim x) = Inr []" using True ex by simp
        show "r = result (serialize h [] [])" by (rule r0)
      qed
    next
      case ne: False
      then obtain stats where st: "fetchOutcodeStats h p expanded = Inr stats"
        and r1: "r = result (serialize h expanded (List.map_filter stats expanded))"
        using assms None False nonempty ex
        by (auto simp: resolveTargeting_def Let_def split: sum.splits)
      show ?thesis by (rule area [OF None False ex ne st r1])
    qed
  qed
qed

lemma resolve_coverage_keys:
  assumes "resolveTargeting h p x = Inr r"
  shows "outcode ` set (coverage r) \<subseteq> set (postal_codes r) \<and> distinct (map outcode (coverage r))"
  using assms
proof (cases rule: resolveTargeting_cases)
  case (postcode oc stats)
  show ?thesis
  proof (cases "stats oc")
    case None
    then show ?thesis
      using postcode(3) by (simp add: coverage_serialize sort_by_Nil)
  next
    case (Some it)
    have "outcode it = oc"
      using postcode(2) Some by (rule fetchOutcodeStats_key)
    then show ?thesis
      using postcode(3) Some
      by (simp add: coverage_serialize postal_codes_serialize set_from_Set set_sort_by
          distinct_outcode_sort_by)
  qed
next
  case (area expanded stats)
  have dist: "distinct expanded"
    using area(3) by (rule expandAreaToOutcodes_distinct)
  have keys: "map outcode (List.map_filter stats expanded) = filter (\<lambda>k. stats k \<noteq> None) expanded"
    using fetchOutcodeStats_key [OF area(5)] by (rule map_filter_keys)
  have "outcode ` set (coverage r) = set (filter (\<lambda>k. stats k \<noteq> None) expanded)"
    using area(6) keys by (metis coverage_serialize set_sort_by set_map)
  moreover have "distinct (map outcode (coverage r))"
    using area(6) keys dist by (simp add: coverage_serialize distinct_outcode_sort_by)
  ultimately show ?thesis
    using area(6) by (auto simp: postal_codes_serialize set_from_Set)
next
  case nothing
  then show ?thesis by (simp add: coverage_serialize sort_by_Nil)
qed

text \<open>
  Claim C10. In every result that \<open>resolveTargeting\<close> returns, each coverage entry has an
  outcode that is an element of \<open>postal_codes\<close>, no two coverage entries have the same
  outcode, and the coverage list is no longer than \<open>postal_codes\<close>.
\<close>

theorem coverage_within_postal_codes:
  assumes "resolveTargeting h p x = Inr r"
  shows "outcode ` set (coverage r) \<subseteq> set (postal_codes r)
         \<and> distinct (map outcode (coverage r))
         \<and> length (coverage r) \<le> length (postal_codes r)"
proof -
  have keys: "outcode ` set (coverage r) \<subseteq> set (postal_codes r)"
    and dist: "distinct (map outcode (coverage r))"
    using resolve_coverage_keys [OF assms] by simp_all
  have "length (coverage r) = card (outcode ` set (coverage r))"
    using dist by (metis distinct_card length_map set_map)
  also have "\<dots> \<le> card (set (postal_codes r))"
    using keys by (simp add: card_mono)
  also have "\<dots> \<le> length (postal_codes r)"
    by (rule card_length)
  finally show ?thesis using keys dist by simp
qed

theorem coverage_within_postal_codes_witness:
  "resolveTargeting example_host ayrshire_pool ''Ayrshire'' = Inr ayrshire_result
   \<and> outcode ` set (coverage ayrshire_result) \<subseteq> set (postal_codes ayrshire_result)
   \<and> distinct (map outcode (coverage ayrshire_result))
   \<and> length (coverage ayrshire_result) \<le> length (postal_codes ayrshire_result)
   \<and> length (coverage ayrshire_result) = 2
   \<and> length (postal_codes ayrshire_result) = 3"
proof -
  have h: "resolveTargeting example_host ayrshire_pool ''Ayrshire'' = Inr ayrshire_result"
    by code_simp
  have "length (coverage ayrshire_result) = 2" "length (postal_codes ayrshire_result) = 3"
    by (simp_all add: ayrshire_result_def)
  then show ?thesis
    using h coverage_within_postal_codes [OF h] by blast
qed

subsection \<open>Where the code departs from the claims\<close>

text \<open>
  Claim C1 fails at the postcode GIR 0AA, which the comment on \<open>OUTCODE_REGEX\<close> says the
  pattern handles: after one or two letters the pattern wants a digit, and GIR has a third
  letter. The text is taken for an area name, and with no such area the result is empty
  instead of the one outcode GIR.
\<close>

theorem gir_0aa_not_extracted:
  "extractOutcodeFromPostcode ''GIR 0AA'' = None
   \<and> OUTCODE_REGEX_matches ''GIR 0AA'' = []
   \<and> resolveTargeting example_host ayrshire_pool ''GIR 0AA'' = Inr empty_result"
  by code_simp

text \<open>
  Claim C2 as stated fails: KA10 is a bare outcode, and an outcode of the reference table,
  yet the result for it is empty, since no area field of the table contains "KA10".
\<close>

theorem bare_outcode_not_returned:
  "bare_outcode ''KA10''
   \<and> extractOutcodeFromPostcode ''KA10'' = None
   \<and> resolveTargeting example_host ayrshire_pool ''KA10'' = Inr empty_result
   \<and> postal_codes empty_result = []"
  by code_simp

text \<open>
  Claim C3 as stated fails for a text with a \<^verbatim>\<open>LIKE\<close> wildcard: no field of the table
  contains "Ayr_hire", and the result has all three outcodes.
\<close>

theorem wildcard_is_not_substring:
  "map_sum id postal_codes (resolveTargeting example_host ayrshire_pool ''Ayr_hire'') =
     Inr [''G64'', ''KA10'', ''KA11'']
   \<and> area_outcodes [county_row ''KA11'' ''Ayrshire'', county_row ''G64'' ''Ayrshire'',
        county_row ''KA10'' ''Ayrshire''] ''Ayr_hire'' = []
   \<and> extractOutcodeFromPostcode ''Ayr_hire'' = None"
  by code_simp


text \<open>
  Claim C5 as stated fails: a statistics row with a NULL radius, a negative diameter and
  an easting that is no numeral is not dropped. Its entry has the radius 0, the diameter
  -5 and the easting NaN, in the lookup and in the coverage list of the result.
\<close>

theorem untidy_stats_kept:
  "map_sum id (\<lambda>stats. stats ''ka10'') (fetchOutcodeStats example_host untidy_pool [''KA10'']) =
     Inr (Some \<lparr> outcode = ''ka10'', approx_radius_km = Finite 0,
                 approx_diameter_km = Finite (- 5), centroid_easting_m = NaN,
                 centroid_northing_m = Finite 631000 \<rparr>)
   \<and> map_sum id coverage (resolveTargeting example_host untidy_pool ''Ayrshire'') =
       Inr [\<lparr> outcode = ''ka10'', approx_radius_km = Finite 0,
               approx_diameter_km = Finite (- 5), centroid_easting_m = NaN,
               centroid_northing_m = Finite 631000 \<rparr>]"
  by code_simp

text \<open>
  Claim C7 as stated fails: an outcode that the reference table stores in lower case is
  returned in lower case.
\<close>

theorem stored_case_is_kept:
  "map_sum id postal_codes (resolveTargeting example_host untidy_pool ''Ayrshire'') = Inr [''ka10'']
   \<and> \<not> canonical_outcode ''ka10''
   \<and> toUpperCase ''ka10'' = ''KA10''"
  by code_simp

text \<open>
  Claim C8 as stated fails for \<open>expandAreaToOutcodes\<close>: the text "AYR%" selects the row
  of "South Ayrshire", which the pattern "AYR%" itself does not match (and
  \<open>getDistrictsByCounty\<close>, which takes it verbatim, finds nothing); a text with a percent
  sign at both ends gets a second pair.
\<close>

theorem resolver_wraps_again:
  "expandAreaToOutcodes untidy_pool ''AYR%'' = Inr [''ka10'']
   \<and> area_pattern ''AYR%'' = ''%AYR%%''
   \<and> \<not> sql_like (Some ''South Ayrshire'') ''AYR%''
   \<and> getDistrictsByCounty untidy_pool ''AYR%'' = []
   \<and> area_pattern ''%AYR%'' = ''%%AYR%%''
   \<and> needle ''%AYR%'' = ''%AYR%''"
  by code_simp

text \<open>
  Claim C9 as stated fails for \<open>deriveOutcodeFromPostcode\<close>: a text that does not match
  its pattern loses its last three characters, or all from its first space on.
\<close>

theorem derive_truncates:
  "deriveOutcodeFromPostcode ''Ayrshire'' = ''AYRSH''
   \<and> derive_pattern_matches ''AYRSHIRE'' = []
   \<and> deriveOutcodeFromPostcode ''KA10'' = ''K''
   \<and> deriveOutcodeFromPostcode ''North Ayrshire'' = ''NORTH''"
  by code_simp

subsection \<open>Failures of the dataset\<close>







subsection \<open>The coverage lookup\<close>

lemma set_all_dom: "dom (set_all h m rs) = dom m \<union> row_outcode ` set rs"
  by (induction rs arbitrary: m) auto

lemma set_all_entry:
  "set_all h Map.empty rs k = Some it \<Longrightarrow> \<exists>r \<in> set rs. row_outcode r = k \<and> it = stats_item h r"
  using set_all_lookup [of h Map.empty rs k it] by simp

text \<open>
  Claim C5, as amended. The coverage lookup drops no row: every row of the statistics
  table whose outcode is among those asked for (in the collation of the column) has its
  outcode in the returned mapping, and every entry of the mapping is made from such a row,
  under the row's own outcode, with each numeric field the conversion of the row's cell:
  0 for NULL, the number itself for a number, negative or not, and whatever the conversion
  of strings gives, NaN included, for a string.
\<close>

theorem stats_rows_coerced:
  assumes "outcodes \<noteq> []"
      and "query_postcode_district_stats p = Inr rows"
  shows "\<exists>stats. fetchOutcodeStats h p outcodes = Inr stats
           \<and> dom stats =
               row_outcode ` {r \<in> set rows. collation_key (row_outcode r) \<in> collation_key ` set outcodes}
           \<and> (\<forall>k it. stats k = Some it \<longrightarrow>
                 (\<exists>r \<in> set rows. collation_key (row_outcode r) \<in> collation_key ` set outcodes
                    \<and> row_outcode r = k \<and> outcode it = k
                    \<and> approx_radius_km it =
                        (case row_approx_radius_km r of
                           Null \<Rightarrow> Finite 0 | Numeric q \<Rightarrow> Finite q | Text s \<Rightarrow> StringToNumber h s)
                    \<and> approx_diameter_km it =
                        (case row_approx_diameter_km r of
                           Null \<Rightarrow> Finite 0 | Numeric q \<Rightarrow> Finite q | Text s \<Rightarrow> StringToNumber h s)
                    \<and> centroid_easting_m it =
                        (case row_centroid_easting_m r of
                           Null \<Rightarrow> Finite 0 | Numeric q \<Rightarrow> Finite q | Text s \<Rightarrow> StringToNumber h s)
                    \<and> centroid_northing_m it =
                        (case row_centroid_northing_m r of
                           Null \<Rightarrow> Finite 0 | Numeric q \<Rightarrow> Finite q | Text s \<Rightarrow> StringToNumber h s)))"
proof -
  let ?sel = "filter (\<lambda>r. collation_key (row_outcode r) \<in> collation_key ` set outcodes) rows"
  let ?stats = "set_all h Map.empty ?sel"
  have res: "fetchOutcodeStats h p outcodes = Inr ?stats"
    using assms by (simp add: fetchOutcodeStats_def)
  have d: "dom ?stats =
      row_outcode ` {r \<in> set rows. collation_key (row_outcode r) \<in> collation_key ` set outcodes}"
    by (simp add: set_all_dom)
  have e: "\<exists>r \<in> set rows. collation_key (row_outcode r) \<in> collation_key ` set outcodes
                    \<and> row_outcode r = k \<and> outcode it = k
                    \<and> approx_radius_km it =
                        (case row_approx_radius_km r of
                           Null \<Rightarrow> Finite 0 | Numeric q \<Rightarrow> Finite q | Text s \<Rightarrow> StringToNumber h s)
                    \<and> approx_diameter_km it =
                        (case row_approx_diameter_km r of
                           Null \<Rightarrow> Finite 0 | Numeric q \<Rightarrow> Finite q | Text s \<Rightarrow> StringToNumber h s)
                    \<and> centroid_easting_m it =
                        (case row_centroid_easting_m r of
                           Null \<Rightarrow> Finite 0 | Numeric q \<Rightarrow> Finite q | Text s \<Rightarrow> StringToNumber h s)
                    \<and> centroid_northing_m it =
                        (case row_centroid_northing_m r of
                           Null \<Rightarrow> Finite 0 | Numeric q \<Rightarrow> Finite q | Text s \<Rightarrow> StringToNumber h s)"
    if st: "?stats k = Some it" for k it
  proof -
    obtain r where r: "r \<in> set ?sel" "row_outcode r = k" "it = stats_item h r"
      using set_all_entry [OF st] by blast
    have "r \<in> set rows" "collation_key (row_outcode r) \<in> collation_key ` set outcodes"
      using r(1) by simp_all
    moreover have "outcode it = k" using r by (simp add: stats_item_def)
    moreover have "approx_radius_km it =
                        (case row_approx_radius_km r of
                           Null \<Rightarrow> Finite 0 | Numeric q \<Rightarrow> Finite q | Text s \<Rightarrow> StringToNumber h s)"
      "approx_diameter_km it =
                        (case row_approx_diameter_km r of
                           Null \<Rightarrow> Finite 0 | Numeric q \<Rightarrow> Finite q | Text s \<Rightarrow> StringToNumber h s)"
      "centroid_easting_m it =
                        (case row_centroid_easting_m r of
                           Null \<Rightarrow> Finite 0 | Numeric q \<Rightarrow> Finite q | Text s \<Rightarrow> StringToNumber h s)"
      "centroid_northing_m it =
                        (case row_centroid_northing_m r of
                           Null \<Rightarrow> Finite 0 | Numeric q \<Rightarrow> Finite q | Text s \<Rightarrow> StringToNumber h s)"
      using r(3) by (simp_all add: stats_item_def Number_def)
    ultimately show ?thesis using r(2) by blast
  qed
  show ?thesis
    using res d e by blast
qed

theorem stats_rows_coerced_witness:
  "[''KA10''] \<noteq> []
   \<and> query_postcode_district_stats untidy_pool =
       Inr [\<lparr> row_outcode = ''ka10'', row_approx_radius_km = Null,
               row_approx_diameter_km = Numeric (- 5), row_centroid_easting_m = Text ''n/a'',
               row_centroid_northing_m = Numeric 631000 \<rparr>]
   \<and> (\<exists>stats. fetchOutcodeStats example_host untidy_pool [''KA10''] = Inr stats
         \<and> dom stats = {''ka10''})"
proof -
  let ?row = "\<lparr> row_outcode = ''ka10'', row_approx_radius_km = Null,
               row_approx_diameter_km = Numeric (- 5), row_centroid_easting_m = Text ''n/a'',
               row_centroid_northing_m = Numeric 631000 \<rparr>"
  have h1: "[''KA10''] \<noteq> []" by simp
  have h2: "query_postcode_district_stats untidy_pool = Inr [?row]"
    by code_simp
  have k: "collation_key ''ka10'' = collation_key ''KA10''"
    by code_simp
  have "row_outcode ` {r \<in> set [?row]. collation_key (row_outcode r) \<in> collation_key ` set [''KA10'']}
          = {''ka10''}"
    using k by auto
  then show ?thesis
    using h1 h2 stats_rows_coerced [OF h1 h2, of example_host] by auto
qed

subsection \<open>Characters and patterns\<close>

lemma in_quant:
  "n \<in> set (quant cls lo hi s) \<longleftrightarrow> lo \<le> n \<and> n \<le> hi \<and> n \<le> length s \<and> list_all cls (take n s)"
  by (auto simp: quant_def)

lemma in_OUTCODE_REGEX_matches:
  "g \<in> set (OUTCODE_REGEX_matches s) \<longleftrightarrow>
     (\<exists>a \<in> set (quant isAZ_i 1 2 s). \<exists>d \<in> set (quant isDigit 1 2 (drop a s)).
        \<exists>l \<in> set (quant isAZ_i 0 1 (drop (a + d) s)).
        \<exists>w \<in> set (quant isSpace 0 1 (drop (a + d + l) s)).
          incode isAZ_i (drop (a + d + l + w) s) \<and> g = take (a + d + l) s)"
  unfolding OUTCODE_REGEX_matches_def by (simp split: if_splits) blast

lemma char_facts:
  "\<forall>c. isAZ_i c \<longrightarrow> \<not> isDigit c \<and> \<not> isSpace c"
  "\<forall>c. isDigit c \<longrightarrow> \<not> isSpace c"
  "\<forall>c. isAZ_i c \<longrightarrow> isAZ (toUpperChar c) \<and> c \<noteq> CHR 0xDF"
  "\<forall>c. isDigit c \<longrightarrow> toUpperChar c = c \<and> c \<noteq> CHR 0xDF"
  "\<forall>c. isSpace c \<longrightarrow> toUpperChar c = c \<and> c \<noteq> CHR 0xDF"
  "\<forall>c. list_all (\<lambda>u. u \<notin> set lower_letters) (if c = CHR 0xDF then ''SS'' else [toUpperChar c])"
  "\<forall>c. toUpperChar (toUpperChar c) = toUpperChar c"
  "\<forall>c. (toUpperChar c = CHR 0xDF) = (c = CHR 0xDF)"
  by code_simp+

subsection \<open>What the patterns match\<close>

lemma toUpperCase_no_small:
  assumes "c \<in> set (toUpperCase y)"
  shows "c \<notin> set lower_letters"
proof -
  obtain c' where "c \<in> set (if c' = CHR 0xDF then ''SS'' else [toUpperChar c'])"
    using assms unfolding toUpperCase_def set_concat set_map by blast
  then show ?thesis
    using char_facts(6) by (metis list_all_iff)
qed

lemma capital_of_upper:
  assumes "c \<in> set (toUpperCase y)" "isAZ_i c"
  shows "isAZ c"
  using toUpperCase_no_small [OF assms(1)] assms(2) by (simp add: isAZ_i_def isAZ_def)

lemma OUTCODE_REGEX_match_Some:
  "OUTCODE_REGEX_match s = Some g \<Longrightarrow> g \<in> set (OUTCODE_REGEX_matches s)"
  by (auto simp: OUTCODE_REGEX_match_def split: list.splits)

lemma take_add_parts: "take (a + b) s = take a s @ take b (drop a s)"
  by (simp add: take_add)

text \<open>What a match of the full-postcode pattern says about the text and its group 1.\<close>

lemma match_shape:
  assumes "g \<in> set (OUTCODE_REGEX_matches s)"
  shows "\<exists>w i. s = g @ w @ i \<and> length w \<le> 1 \<and> list_all isSpace w \<and> incode isAZ_i i
           \<and> list_all (\<lambda>c. isAZ_i c \<or> isDigit c) g \<and> g \<noteq> []"
proof -
  obtain a d l w where q: "a \<in> set (quant isAZ_i 1 2 s)"
      "d \<in> set (quant isDigit 1 2 (drop a s))"
      "l \<in> set (quant isAZ_i 0 1 (drop (a + d) s))"
      "w \<in> set (quant isSpace 0 1 (drop (a + d + l) s))"
      and i: "incode isAZ_i (drop (a + d + l + w) s)" and g: "g = take (a + d + l) s"
    using assms unfolding in_OUTCODE_REGEX_matches by blast
  have parts: "g = take a s @ take d (drop a s) @ take l (drop (a + d) s)"
    unfolding g by (simp add: take_add)
  have cls: "list_all isAZ_i (take a s)" "list_all isDigit (take d (drop a s))"
    "list_all isAZ_i (take l (drop (a + d) s))"
    "list_all isSpace (take w (drop (a + d + l) s))"
    and bounds: "1 \<le> a" "a \<le> length s" "w \<le> 1"
    using q by (simp_all add: in_quant)
  have "list_all (\<lambda>c. isAZ_i c \<or> isDigit c) g"
    unfolding parts using cls(1-3) by (auto simp: list_all_iff)
  moreover have "g \<noteq> []"
    unfolding g using bounds by (cases s) auto
  moreover have "s = g @ take w (drop (a + d + l) s) @ drop (a + d + l + w) s"
    unfolding g by (metis append_take_drop_id drop_drop add.commute)
  moreover have "length (take w (drop (a + d + l) s)) \<le> 1"
    using bounds by simp
  ultimately show ?thesis using cls(4) i by blast
qed

lemma extract_shape:
  assumes "extractOutcodeFromPostcode x = Some g"
  shows "\<exists>w i. toUpperCase (trim x) = g @ w @ i \<and> length w \<le> 1 \<and> list_all isSpace w
           \<and> incode isAZ_i i \<and> canonical_outcode g \<and> g \<noteq> []"
proof -
  let ?s = "toUpperCase (trim x)"
  have "g \<in> set (OUTCODE_REGEX_matches ?s)"
    using assms by (auto simp: extractOutcodeFromPostcode_def split: if_splits
        intro: OUTCODE_REGEX_match_Some)
  then obtain w i where s: "?s = g @ w @ i" and rest: "length w \<le> 1" "list_all isSpace w"
      "incode isAZ_i i" "list_all (\<lambda>c. isAZ_i c \<or> isDigit c) g" "g \<noteq> []"
    using match_shape by blast
  have "isAZ_or_digit c" if "c \<in> set g" for c
  proof -
    have "c \<in> set ?s" using that s by simp
    moreover have "isAZ_i c \<or> isDigit c" using that rest(4) by (simp add: list_all_iff)
    ultimately show ?thesis
      using capital_of_upper by (auto simp: isAZ_or_digit_def)
  qed
  then have "canonical_outcode g"
    by (simp add: canonical_outcode_def list_all_iff)
  then show ?thesis using s rest by blast
qed

lemma in_derive_pattern_matches:
  "g \<in> set (derive_pattern_matches s) \<Longrightarrow>
     \<exists>n. incode isAZ (drop n s) \<and> g = take n s"
  unfolding derive_pattern_matches_def by (auto split: if_splits)

lemma derive_origin:
  "(\<exists>i. filter (\<lambda>c. \<not> isSpace c) (trim (toUpperCase y)) = deriveOutcodeFromPostcode y @ i
        \<and> incode isAZ i)
   \<or> prefix (deriveOutcodeFromPostcode y) (trim (toUpperCase y))"
proof (cases "y = []")
  case True
  then show ?thesis by (simp add: deriveOutcodeFromPostcode_def)
next
  case False
  let ?raw = "trim (toUpperCase y)"
  let ?ns = "filter (\<lambda>c. \<not> isSpace c) ?raw"
  show ?thesis
  proof (cases "derive_pattern_matches ?ns")
    case (Cons g gs)
    then have "deriveOutcodeFromPostcode y = g"
      using False by (simp add: deriveOutcodeFromPostcode_def Let_def)
    moreover obtain n where "incode isAZ (drop n ?ns)" "g = take n ?ns"
      using Cons in_derive_pattern_matches [of g ?ns] by auto
    ultimately have "?ns = deriveOutcodeFromPostcode y @ drop n ?ns \<and> incode isAZ (drop n ?ns)"
      by simp
    then show ?thesis by blast
  next
    case Nil
    then have "prefix (deriveOutcodeFromPostcode y) ?raw"
      using False
      by (auto simp: deriveOutcodeFromPostcode_def Let_def take_is_prefix
          split: option.splits nat.splits)
    then show ?thesis by simp
  qed
qed

subsection \<open>The form of the outcodes\<close>

lemma query_names_Inr:
  "query_os_open_names p = Inr rows \<longleftrightarrow> reachable p \<and> os_open_names p = Some rows"
  by (auto simp: query_os_open_names_def split: option.splits)

lemma in_area_select:
  "d \<in> set (area_select t r) \<longleftrightarrow>
     POSTCODE_DISTRICT r = Some d \<and> d \<noteq> []
     \<and> (sql_like (COUNTY_UNITARY r) (area_pattern t)
        \<or> sql_like (DISTRICT_BOROUGH r) (area_pattern t)
        \<or> sql_like (REGION r) (area_pattern t))"
  by (auto simp: area_select_def split: option.splits)

text \<open>The expansion of an area: a choice of the selected outcodes, one for each key.\<close>

lemma expandAreaToOutcodes_result:
  assumes "expandAreaToOutcodes p t = Inr expanded"
  obtains rows where "reachable p" "os_open_names p = Some rows"
    "set expanded \<subseteq> set (concat (map (area_select t) rows))"
    "collation_key ` set expanded = collation_key ` set (concat (map (area_select t) rows))"
proof -
  obtain rows where q: "query_os_open_names p = Inr rows"
    and e: "expanded = sort_key collation_key
       (distinct_by collation_key (concat (map (area_select t) rows)))"
    using assms by (auto simp: expandAreaToOutcodes_def split: sum.splits)
  have eq: "set expanded = set (distinct_by collation_key (concat (map (area_select t) rows)))"
    unfolding e by simp
  have s1: "set expanded \<subseteq> set (concat (map (area_select t) rows))"
    unfolding eq by (rule set_distinct_by)
  have s2: "collation_key ` set expanded =
      collation_key ` set (concat (map (area_select t) rows))"
    unfolding eq by (rule image_distinct_by)
  have "reachable p" "os_open_names p = Some rows"
    using q by (simp_all add: query_names_Inr)
  then show ?thesis using s1 s2 by (rule that)
qed

lemma expandAreaToOutcodes_stored:
  assumes "expandAreaToOutcodes p t = Inr expanded"
  shows "set expanded \<subseteq> set (stored_outcodes p)"
proof -
  obtain rows where rows: "os_open_names p = Some rows"
    and sub: "set expanded \<subseteq> set (concat (map (area_select t) rows))"
    using assms by (rule expandAreaToOutcodes_result)
  have "set (concat (map (area_select t) rows)) \<subseteq> set (stored_outcodes p)"
    using rows by (auto simp: stored_outcodes_def in_area_select)
  then show ?thesis using sub by blast
qed

lemma from_Set_distinct: "distinct xs \<Longrightarrow> from_Set xs = xs"
  by (simp add: from_Set_def distinct_remdups_id)

text \<open>
  Claim C7, as amended. The \<open>postal_codes\<close> of every result are sorted and free of
  duplicates, also of duplicates up to letter case. For a full postcode, in any case and
  with white space around it, the list is the one outcode of the match, in capital letters
  and digits only. For any other text every element is an outcode of the reference table
  exactly as the table stores it, neither upper-cased nor trimmed.
\<close>

theorem postal_codes_normal_form:
  assumes "resolveTargeting h p x = Inr r"
  shows "sorted (postal_codes r) \<and> distinct (postal_codes r)
         \<and> distinct (map collation_key (postal_codes r))
         \<and> (case extractOutcodeFromPostcode x of
               Some oc \<Rightarrow> postal_codes r = [oc] \<and> canonical_outcode oc
             | None \<Rightarrow> set (postal_codes r) \<subseteq> set (stored_outcodes p))"
  using assms
proof (cases rule: resolveTargeting_cases)
  case (postcode oc stats)
  have "canonical_outcode oc"
    using extract_shape [OF postcode(1)] by blast
  moreover have "postal_codes r = [oc]"
    unfolding postcode(3) by (simp add: postal_codes_serialize from_Set_def)
  ultimately show ?thesis using postcode(1) by simp
next
  case (area expanded stats)
  have d: "distinct (map collation_key expanded)" "distinct expanded"
    using area(3) by (rule expandAreaToOutcodes_distinct)+
  have pc: "postal_codes r = sort expanded"
    unfolding area(6) using d(2) by (simp add: postal_codes_serialize from_Set_distinct)
  have "mset (map collation_key (sort expanded)) = mset (map collation_key expanded)"
    by simp
  then have "distinct (map collation_key (sort expanded))"
    using d(1) mset_eq_imp_distinct_iff by blast
  moreover have "set (sort expanded) \<subseteq> set (stored_outcodes p)"
    using expandAreaToOutcodes_stored [OF area(3)] by simp
  ultimately show ?thesis using area(1) d(2) by (simp add: pc)
next
  case nothing
  then show ?thesis by (simp add: postal_codes_serialize from_Set_def)
qed

theorem postal_codes_normal_form_witness:
  "resolveTargeting example_host ayrshire_pool ''  g64 1ab '' =
     Inr \<lparr> postal_codes = [''G64''], postal_code_system = ''GB_POSTCODE_DISTRICT'',
           coverage = [],
           platform_serializations =
             \<lparr> meta_bulk_text = ''G64'', tiktok_postal_codes = [''G64''],
               linkedin_postal_codes = [''G64''], pinterest_postal_codes = [''G64''],
               google_ads_postal_codes = [''G64''] \<rparr> \<rparr>
   \<and> extractOutcodeFromPostcode ''  g64 1ab '' = Some ''G64''
   \<and> canonical_outcode ''G64''
   \<and> resolveTargeting example_host untidy_pool ''ayrshire'' =
       Inr \<lparr> postal_codes = [''ka10''], postal_code_system = ''GB_POSTCODE_DISTRICT'',
           coverage = [\<lparr> outcode = ''ka10'', approx_radius_km = Finite 0,
                         approx_diameter_km = Finite (- 5), centroid_easting_m = NaN,
                         centroid_northing_m = Finite 631000 \<rparr>],
           platform_serializations =
             \<lparr> meta_bulk_text = ''ka10'', tiktok_postal_codes = [''ka10''],
               linkedin_postal_codes = [''ka10''], pinterest_postal_codes = [''ka10''],
               google_ads_postal_codes = [''ka10''] \<rparr> \<rparr>
   \<and> extractOutcodeFromPostcode ''ayrshire'' = None
   \<and> set [''ka10''] \<subseteq> set (stored_outcodes untidy_pool)"
proof -
  have h1: "resolveTargeting example_host ayrshire_pool ''  g64 1ab '' =
     Inr \<lparr> postal_codes = [''G64''], postal_code_system = ''GB_POSTCODE_DISTRICT'',
           coverage = [],
           platform_serializations =
             \<lparr> meta_bulk_text = ''G64'', tiktok_postal_codes = [''G64''],
               linkedin_postal_codes = [''G64''], pinterest_postal_codes = [''G64''],
               google_ads_postal_codes = [''G64''] \<rparr> \<rparr>"
    by code_simp
  have h2: "resolveTargeting example_host untidy_pool ''ayrshire'' =
       Inr \<lparr> postal_codes = [''ka10''], postal_code_system = ''GB_POSTCODE_DISTRICT'',
           coverage = [\<lparr> outcode = ''ka10'', approx_radius_km = Finite 0,
                         approx_diameter_km = Finite (- 5), centroid_easting_m = NaN,
                         centroid_northing_m = Finite 631000 \<rparr>],
           platform_serializations =
             \<lparr> meta_bulk_text = ''ka10'', tiktok_postal_codes = [''ka10''],
               linkedin_postal_codes = [''ka10''], pinterest_postal_codes = [''ka10''],
               google_ads_postal_codes = [''ka10''] \<rparr> \<rparr>"
    by code_simp
  have e1: "extractOutcodeFromPostcode ''  g64 1ab '' = Some ''G64''"
    and e2: "extractOutcodeFromPostcode ''ayrshire'' = None"
    by code_simp+
  show ?thesis
    using h1 h2 e1 e2 postal_codes_normal_form [OF h1] postal_codes_normal_form [OF h2]
    by simp
qed

subsection \<open>Where outcodes come from\<close>

text \<open>
  Claim C9, as amended. \<open>resolveTargeting\<close> infers no outcode by truncation: each outcode
  it returns is either group 1 of a full-postcode match, that is the upper-cased text up
  to its incode (and then the only outcode returned), or a value the reference table
  stores. \<open>deriveOutcodeFromPostcode\<close> does truncate: its result is the text before the
  incode when the text without white space matches its pattern, and otherwise a prefix
  of the upper-cased text.
\<close>

theorem outcodes_from_match_or_table:
  assumes "resolveTargeting h p x = Inr r"
      and "d \<in> set (postal_codes r)"
  shows "((\<exists>w i. toUpperCase (trim x) = d @ w @ i \<and> length w \<le> 1 \<and> list_all isSpace w
             \<and> incode isAZ_i i)
          \<and> extractOutcodeFromPostcode x = Some d \<and> postal_codes r = [d]
          \<or> extractOutcodeFromPostcode x = None \<and> d \<in> set (stored_outcodes p))
         \<and> ((\<exists>i. filter (\<lambda>c. \<not> isSpace c) (trim (toUpperCase y)) =
                    deriveOutcodeFromPostcode y @ i \<and> incode isAZ i)
             \<or> prefix (deriveOutcodeFromPostcode y) (trim (toUpperCase y)))"
proof -
  have first: "(\<exists>w i. toUpperCase (trim x) = d @ w @ i \<and> length w \<le> 1 \<and> list_all isSpace w
             \<and> incode isAZ_i i)
          \<and> extractOutcodeFromPostcode x = Some d \<and> postal_codes r = [d]
          \<or> extractOutcodeFromPostcode x = None \<and> d \<in> set (stored_outcodes p)"
    using assms(1)
  proof (cases rule: resolveTargeting_cases)
    case (postcode oc stats)
    have pc: "postal_codes r = [oc]"
      unfolding postcode(3) by (simp add: postal_codes_serialize from_Set_def)
    then have "d = oc" using assms(2) by simp
    then show ?thesis
      using extract_shape [OF postcode(1)] postcode(1) pc by blast
  next
    case (area expanded stats)
    have "set (postal_codes r) = set expanded"
      unfolding area(6) by (simp add: postal_codes_serialize set_from_Set)
    then have "d \<in> set (stored_outcodes p)"
      using assms(2) expandAreaToOutcodes_stored [OF area(3)] by blast
    then show ?thesis using area(1) by simp
  next
    case nothing
    then show ?thesis
      using assms(2) by (simp add: postal_codes_serialize from_Set_def)
  qed
  show ?thesis
    using first derive_origin [of y] by (rule conjI)
qed

theorem outcodes_from_match_or_table_witness:
  "resolveTargeting example_host ayrshire_pool ''Ayrshire'' = Inr ayrshire_result
   \<and> ''G64'' \<in> set (postal_codes ayrshire_result)
   \<and> extractOutcodeFromPostcode ''Ayrshire'' = None
   \<and> ''G64'' \<in> set (stored_outcodes ayrshire_pool)
   \<and> stored_outcodes ayrshire_pool = [''KA11'', ''G64'', ''KA10'']
   \<and> deriveOutcodeFromPostcode ''g64 1ab'' = ''G64''
   \<and> prefix (deriveOutcodeFromPostcode ''Ayrshire'') (trim (toUpperCase ''Ayrshire''))"
proof -
  have h1: "resolveTargeting example_host ayrshire_pool ''Ayrshire'' = Inr ayrshire_result"
    by code_simp
  have h2: "''G64'' \<in> set (postal_codes ayrshire_result)"
    by (simp add: ayrshire_result_def)
  have v: "extractOutcodeFromPostcode ''Ayrshire'' = None"
    "stored_outcodes ayrshire_pool = [''KA11'', ''G64'', ''KA10'']"
    "deriveOutcodeFromPostcode ''g64 1ab'' = ''G64''"
    "deriveOutcodeFromPostcode ''Ayrshire'' = ''AYRSH''"
    "trim (toUpperCase ''Ayrshire'') = ''AYRSHIRE''"
    "filter (\<lambda>c. \<not> isSpace c) ''AYRSHIRE'' = ''AYRSHIRE''"
    by code_simp+
  have "\<not> (\<exists>i. ''AYRSHIRE'' = ''AYRSH'' @ i \<and> incode isAZ i)"
    by (auto simp: incode_def isDigit_def digit_chars_def)
  then show ?thesis
    using h1 h2 v outcodes_from_match_or_table [OF h1 h2, of "''Ayrshire''"]
    by auto
qed

subsection \<open>The pattern of the area query\<close>

lemma like_percent_Nil: "like (CHR ''%'' # q) [] \<longleftrightarrow> like q []"
  by simp

lemma like_percent_Cons:
  "like (CHR ''%'' # q) (x # xs) \<longleftrightarrow> like q (x # xs) \<or> like (CHR ''%'' # q) xs"
  by simp

lemma like_plain_Cons:
  "c \<notin> set like_specials \<Longrightarrow> like (c # q) s \<longleftrightarrow> (\<exists>s'. s = c # s' \<and> like q s')"
  by (cases s) (auto simp: like_specials_def)

lemma like_plain_prefix:
  "plain_text t \<Longrightarrow> like (t @ q) s \<longleftrightarrow> (\<exists>s'. s = t @ s' \<and> like q s')"
proof (induction t arbitrary: s)
  case Nil
  then show ?case by simp
next
  case (Cons c t)
  then have c: "c \<notin> set like_specials" and t: "plain_text t"
    by (simp_all add: plain_text_def)
  have "like ((c # t) @ q) s \<longleftrightarrow> (\<exists>s'. s = c # s' \<and> like (t @ q) s')"
    using like_plain_Cons [OF c] by simp
  also have "\<dots> \<longleftrightarrow> (\<exists>s'. s = c # s' \<and> (\<exists>s''. s' = t @ s'' \<and> like q s''))"
    using Cons.IH [OF t] by simp
  also have "\<dots> \<longleftrightarrow> (\<exists>s''. s = (c # t) @ s'' \<and> like q s'')"
    by auto
  finally show ?case .
qed

lemma like_percent_all: "like [CHR ''%''] s"
  by (induction s) simp_all

lemma like_percent:
  "like (CHR ''%'' # q) s \<longleftrightarrow> (\<exists>pre post. s = pre @ post \<and> like q post)"
proof (induction s)
  case Nil
  then show ?case by (simp only: like_percent_Nil) simp
next
  case (Cons x xs)
  have "(\<exists>pre post. x # xs = pre @ post \<and> like q post) \<longleftrightarrow>
          like q (x # xs) \<or> (\<exists>pre post. xs = pre @ post \<and> like q post)"
    by (auto simp: Cons_eq_append_conv)
  then show ?case
    using Cons.IH by (simp only: like_percent_Cons)
qed

lemma like_contains:
  assumes "plain_text t"
  shows "like (CHR ''%'' # t @ [CHR ''%'']) s \<longleftrightarrow> sublist t s"
proof -
  have "like (CHR ''%'' # t @ [CHR ''%'']) s \<longleftrightarrow>
          (\<exists>pre post. s = pre @ post \<and> like (t @ [CHR ''%'']) post)"
    by (rule like_percent)
  also have "\<dots> \<longleftrightarrow> (\<exists>pre post. s = pre @ post \<and> (\<exists>s'. post = t @ s'))"
    using like_plain_prefix [OF assms, of "[CHR ''%'']"] like_percent_all by simp
  also have "\<dots> \<longleftrightarrow> sublist t s"
    by (auto simp: sublist_def)
  finally show ?thesis .
qed

lemma fold_facts:
  "\<forall>c. toUpperChar c \<in> set like_specials \<longrightarrow> c \<in> set like_specials"
  "\<forall>c. isAZ_i c \<or> isDigit c \<longrightarrow> c \<notin> set like_specials"
  by code_simp+

lemma collation_key_percent: "collation_key (area_pattern t) = CHR ''%'' # collation_key t @ [CHR ''%'']"
  by (simp add: collation_key_def area_pattern_def toUpperChar_def small_chars_def
      capital_chars_def lower_letters_def upper_letters_def)

lemma plain_text_collation_key: "plain_text t \<Longrightarrow> plain_text (collation_key t)"
  using fold_facts(1) by (auto simp: plain_text_def collation_key_def list_all_iff)

lemma sql_like_contains:
  assumes "plain_text t"
  shows "sql_like f (area_pattern t) = field_contains t f"
  using like_contains [OF plain_text_collation_key [OF assms]]
  by (simp add: sql_like_def field_contains_def collation_key_percent split: option.splits)

lemma area_select_plain:
  assumes "plain_text t"
  shows "concat (map (area_select t) rows) = area_outcodes rows t"
proof -
  have "area_select t =
      (\<lambda>r. case POSTCODE_DISTRICT r of
             None \<Rightarrow> []
           | Some d \<Rightarrow>
               if d \<noteq> [] \<and> (field_contains t (COUNTY_UNITARY r)
                            \<or> field_contains t (DISTRICT_BOROUGH r)
                            \<or> field_contains t (REGION r))
               then [d] else [])"
    by (rule ext) (simp add: area_select_def sql_like_contains [OF assms] split: option.splits)
  then show ?thesis by (simp add: area_outcodes_def)
qed

lemma query_stats_Inr:
  "reachable p \<Longrightarrow> postcode_district_stats p = Some srows \<Longrightarrow>
     query_postcode_district_stats p = Inr srows"
  by (simp add: query_postcode_district_stats_def)

text \<open>The result for a text that is no postcode and has no wildcard of \<open>LIKE\<close>.\<close>

lemma area_path_result:
  assumes "extractOutcodeFromPostcode x = None" "trim x \<noteq> []" "plain_text (trim x)"
      and "reachable p" "os_open_names p = Some rows" "postcode_district_stats p = Some srows"
  shows "\<exists>r. resolveTargeting h p x = Inr r
           \<and> sorted (postal_codes r) \<and> distinct (postal_codes r)
           \<and> set (postal_codes r) \<subseteq> set (area_outcodes rows (trim x))
           \<and> collation_key ` set (postal_codes r) =
               collation_key ` set (area_outcodes rows (trim x))"
proof -
  let ?sel = "concat (map (area_select (trim x)) rows)"
  define expanded where "expanded = sort_key collation_key (distinct_by collation_key ?sel)"
  have ex: "expandAreaToOutcodes p (trim x) = Inr expanded"
    using assms(4,5) by (simp add: expandAreaToOutcodes_def query_os_open_names_def expanded_def)
  have sel: "?sel = area_outcodes rows (trim x)"
    using assms(3) by (rule area_select_plain)
  have sub: "set expanded \<subseteq> set (area_outcodes rows (trim x))"
    and img: "collation_key ` set expanded = collation_key ` set (area_outcodes rows (trim x))"
    using set_distinct_by [of collation_key ?sel] image_distinct_by [of collation_key ?sel]
    unfolding expanded_def sel by simp_all
  have nonempty: "x \<noteq> []" using assms(2) by (auto simp: trim_def)
  have "\<exists>stats. fetchOutcodeStats h p expanded = Inr stats"
    using query_stats_Inr [OF assms(4,6)] by (simp add: fetchOutcodeStats_def)
  then obtain stats where st: "fetchOutcodeStats h p expanded = Inr stats"
    by blast
  define r where "r = result (serialize h expanded (List.map_filter stats expanded))"
  have res: "resolveTargeting h p x = Inr r"
  proof (cases "expanded = []")
    case True
    then show ?thesis
      using assms(1,2) nonempty ex
      by (simp add: resolveTargeting_def r_def List.map_filter_simps)
  next
    case False
    then show ?thesis
      using assms(1,2) nonempty ex st by (simp add: resolveTargeting_def r_def)
  qed
  have pc: "set (postal_codes r) = set expanded" "sorted (postal_codes r)" "distinct (postal_codes r)"
    unfolding r_def by (simp_all add: postal_codes_serialize set_from_Set distinct_from_Set)
  show ?thesis
    using res pc sub img by auto
qed

subsection \<open>Area names\<close>

lemma same_keys_inj:
  assumes "A \<subseteq> B" "k ` A = k ` B" "inj_on k B"
  shows "A = B"
proof
  show "A \<subseteq> B" by (rule assms(1))
  show "B \<subseteq> A"
  proof
    fix b assume b: "b \<in> B"
    then have "k b \<in> k ` A" using assms(2) by simp
    then obtain a where a: "a \<in> A" "k a = k b" by auto
    then have "a = b" using assms(1,3) b by (auto dest: inj_onD)
    then show "b \<in> A" using a by simp
  qed
qed

text \<open>
  Claim C3, as amended. Let the text, trimmed, be non-empty, be no full postcode and have
  none of the characters percent, underscore and backslash, and let the queries succeed.
  Then \<open>resolveTargeting\<close> returns a result whose \<open>postal_codes\<close> are sorted and distinct,
  are outcodes of reference rows with a non-empty outcode whose county/unitary,
  district/borough or region field contains the trimmed text as a case-insensitive
  substring, and cover every such outcode up to letter case. Where the matching outcodes
  do not differ by case alone, \<open>postal_codes\<close> is exactly their set.
\<close>

theorem area_text_resolution:
  assumes "extractOutcodeFromPostcode x = None"
      and "trim x \<noteq> []"
      and "plain_text (trim x)"
      and "reachable p"
      and "os_open_names p = Some rows"
      and "postcode_district_stats p = Some srows"
  shows "\<exists>r. resolveTargeting h p x = Inr r
           \<and> sorted (postal_codes r) \<and> distinct (postal_codes r)
           \<and> set (postal_codes r) \<subseteq> set (area_outcodes rows (trim x))
           \<and> collation_key ` set (postal_codes r) =
               collation_key ` set (area_outcodes rows (trim x))
           \<and> (inj_on collation_key (set (area_outcodes rows (trim x)))
                \<longrightarrow> set (postal_codes r) = set (area_outcodes rows (trim x)))"
proof -
  obtain r where r: "resolveTargeting h p x = Inr r"
      "sorted (postal_codes r)" "distinct (postal_codes r)"
      "set (postal_codes r) \<subseteq> set (area_outcodes rows (trim x))"
      "collation_key ` set (postal_codes r) = collation_key ` set (area_outcodes rows (trim x))"
    using area_path_result [OF assms, of h] by blast
  have "set (postal_codes r) = set (area_outcodes rows (trim x))"
    if "inj_on collation_key (set (area_outcodes rows (trim x)))"
    using r(4,5) that by (rule same_keys_inj)
  then show ?thesis using r by blast
qed

theorem area_text_resolution_witness:
  "extractOutcodeFromPostcode '' Ayrshire '' = None
   \<and> trim '' Ayrshire '' = ''Ayrshire''
   \<and> plain_text ''Ayrshire''
   \<and> reachable ayrshire_pool
   \<and> os_open_names ayrshire_pool =
       Some [county_row ''KA11'' ''Ayrshire'', county_row ''G64'' ''Ayrshire'',
             county_row ''KA10'' ''Ayrshire'']
   \<and> area_outcodes [county_row ''KA11'' ''Ayrshire'', county_row ''G64'' ''Ayrshire'',
        county_row ''KA10'' ''Ayrshire''] ''Ayrshire'' = [''KA11'', ''G64'', ''KA10'']
   \<and> resolveTargeting example_host ayrshire_pool '' Ayrshire '' = Inr ayrshire_result
   \<and> set (postal_codes ayrshire_result) = set [''KA11'', ''G64'', ''KA10'']
   \<and> postal_codes ayrshire_result = [''G64'', ''KA10'', ''KA11'']
   \<and> area_outcodes [county_row ''KA11'' ''Ayrshire'', county_row ''G64'' ''Ayrshire'',
        county_row ''KA10'' ''Ayrshire''] ''Fife'' = []
   \<and> resolveTargeting example_host ayrshire_pool ''Fife'' = Inr empty_result"
proof -
  let ?rows = "[county_row ''KA11'' ''Ayrshire'', county_row ''G64'' ''Ayrshire'',
        county_row ''KA10'' ''Ayrshire'']"
  have h1: "extractOutcodeFromPostcode '' Ayrshire '' = None"
    and t: "trim '' Ayrshire '' = ''Ayrshire''"
    and h3: "plain_text ''Ayrshire''"
    and a: "area_outcodes ?rows ''Ayrshire'' = [''KA11'', ''G64'', ''KA10'']"
    and f: "area_outcodes ?rows ''Fife'' = []"
    and res: "resolveTargeting example_host ayrshire_pool '' Ayrshire '' = Inr ayrshire_result"
    and res': "resolveTargeting example_host ayrshire_pool ''Fife'' = Inr empty_result"
    and k: "collation_key ''KA11'' = ''KA11''" "collation_key ''G64'' = ''G64''"
      "collation_key ''KA10'' = ''KA10''"
    by code_simp+
  have h2: "trim '' Ayrshire '' \<noteq> []" and h3': "plain_text (trim '' Ayrshire '')"
    using h3 by (simp_all add: t)
  have h4: "reachable ayrshire_pool" and h5: "os_open_names ayrshire_pool = Some ?rows"
    and h6: "postcode_district_stats ayrshire_pool =
         Some [\<lparr> row_outcode = ''KA11'', row_approx_radius_km = Numeric 4,
                 row_approx_diameter_km = Numeric 8, row_centroid_easting_m = Numeric 235000,
                 row_centroid_northing_m = Numeric 640000 \<rparr>,
               \<lparr> row_outcode = ''KA10'', row_approx_radius_km = Numeric 3,
                 row_approx_diameter_km = Numeric 6, row_centroid_easting_m = Numeric 233000,
                 row_centroid_northing_m = Numeric 631000 \<rparr>]"
    by (simp_all add: ayrshire_pool_def)
  have inj: "inj_on collation_key (set (area_outcodes ?rows (trim '' Ayrshire '')))"
    unfolding t a using k by (simp add: inj_on_def)
  have "set (postal_codes ayrshire_result) = set [''KA11'', ''G64'', ''KA10'']"
    using area_text_resolution [OF h1 h2 h3' h4 h5 h6, of example_host] inj res
    by (auto simp: t a)
  moreover have "postal_codes ayrshire_result = [''G64'', ''KA10'', ''KA11'']"
    by (simp add: ayrshire_result_def)
  ultimately show ?thesis
    using h1 t h3 h4 h5 a f res res' by blast
qed

subsection \<open>Bare outcodes\<close>

lemma bare_outcode_parts:
  assumes "bare_outcode s"
  obtains a d l where "1 \<le> a" "1 \<le> d" "l \<le> 1" "a + d + l = length s"
    "list_all isAZ_i (take a s)" "list_all isDigit (take d (drop a s))"
    "list_all isAZ_i (take l (drop (a + d) s))"
proof -
  obtain a d l where "a \<in> set (quant isAZ_i 1 2 s)" "d \<in> set (quant isDigit 1 2 (drop a s))"
    "l \<in> set (quant isAZ_i 0 1 (drop (a + d) s))" "a + d + l = length s"
    using assms unfolding bare_outcode_def list_ex_iff by blast
  then show ?thesis
    using that [of a d l] by (simp add: in_quant)
qed

lemma bare_outcode_chars:
  assumes "bare_outcode s"
  shows "list_all (\<lambda>c. isAZ_i c \<or> isDigit c) s" and "s \<noteq> []"
proof -
  obtain a d l where p: "1 \<le> a" "1 \<le> d" "l \<le> 1" "a + d + l = length s"
    "list_all isAZ_i (take a s)" "list_all isDigit (take d (drop a s))"
    "list_all isAZ_i (take l (drop (a + d) s))"
    using assms by (rule bare_outcode_parts)
  have "s = take (a + d + l) s" using p(4) by simp
  also have "\<dots> = take a s @ take d (drop a s) @ take l (drop (a + d) s)"
    by (simp add: take_add)
  finally have "s = take a s @ take d (drop a s) @ take l (drop (a + d) s)" .
  then have "set s = set (take a s) \<union> set (take d (drop a s)) \<union> set (take l (drop (a + d) s))"
    by (metis set_append Un_assoc)
  then show "list_all (\<lambda>c. isAZ_i c \<or> isDigit c) s"
    using p(5-7) by (auto simp: list_all_iff)
  show "s \<noteq> []" using p(1,4) by auto
qed

text \<open>In a bare outcode one of the last two characters is a digit.\<close>

lemma bare_outcode_late_digit:
  assumes "bare_outcode s"
  shows "\<exists>k. k < length s \<and> length s \<le> k + 2 \<and> isDigit (s ! k)"
proof -
  obtain a d l where p: "1 \<le> a" "1 \<le> d" "l \<le> 1" "a + d + l = length s"
    "list_all isAZ_i (take a s)" "list_all isDigit (take d (drop a s))"
    "list_all isAZ_i (take l (drop (a + d) s))"
    using assms by (rule bare_outcode_parts)
  have len: "d \<le> length (drop a s)" using p(4) by simp
  have al: "a \<le> length s" using p(4) by simp
  have "\<forall>n<d. isDigit (s ! (a + n))"
    using p(6) len al by (simp add: list_all_length nth_drop)
  then have "d - 1 < d \<longrightarrow> isDigit (s ! (a + (d - 1)))"
    by (rule spec)
  then have "isDigit (s ! (a + (d - 1)))"
    using p(2) by simp
  moreover have "a + (d - 1) < length s" "length s \<le> a + (d - 1) + 2"
    using p(2,3,4) by simp_all
  ultimately show ?thesis by blast
qed

lemma no_space_trim:
  assumes "list_all (\<lambda>c. \<not> isSpace c) s"
  shows "trim s = s"
proof -
  have dw: "dropWhile isSpace xs = xs" if "list_all (\<lambda>c. \<not> isSpace c) xs" for xs
    using that by (cases xs) simp_all
  have "list_all (\<lambda>c. \<not> isSpace c) (rev s)"
    using assms by (simp add: list_all_iff)
  then have "dropWhile isSpace (rev s) = rev s" by (rule dw)
  moreover have "dropWhile isSpace s = s" using assms by (rule dw)
  ultimately show ?thesis by (simp add: trim_def)
qed

lemma toUpperCase_plain:
  assumes "list_all (\<lambda>c. isAZ_i c \<or> isDigit c) s"
  shows "toUpperCase s = map toUpperChar s"
proof -
  have "\<forall>c \<in> set s. c \<noteq> CHR 0xDF"
    using assms char_facts(3,4) by (auto simp: list_all_iff)
  then have eq: "map (\<lambda>c. if c = CHR 0xDF then ''SS'' else [toUpperChar c]) s =
      map (\<lambda>c. [toUpperChar c]) s"
    by simp
  show ?thesis
    unfolding toUpperCase_def by (simp only: eq concat_map_singleton)
qed

lemma incode_last_letters:
  assumes "u = g @ w @ i" "incode isAZ_i i"
  shows "\<forall>k. k < length u \<and> length u \<le> k + 2 \<longrightarrow> isAZ_i (u ! k)"
proof -
  obtain x y z where i: "i = [x, y, z]" "isAZ_i y" "isAZ_i z"
    using assms(2) by (auto simp: incode_def split: list.splits)
  have u: "u = (g @ w @ [x]) @ [y, z]" using assms(1) i by simp
  show ?thesis
  proof (intro allI impI)
    fix k assume "k < length u \<and> length u \<le> k + 2"
    then have "k = length (g @ w @ [x]) \<or> k = length (g @ w @ [x]) + 1"
      unfolding u by auto
    then show "isAZ_i (u ! k)"
      unfolding u using i(2,3) by (auto simp: nth_append)
  qed
qed

lemma bare_outcode_no_match:
  assumes "bare_outcode s"
  shows "extractOutcodeFromPostcode s = None"
proof -
  have chars: "list_all (\<lambda>c. isAZ_i c \<or> isDigit c) s" and ne: "s \<noteq> []"
    using assms by (rule bare_outcode_chars)+
  have "list_all (\<lambda>c. \<not> isSpace c) s"
    using chars char_facts(1,2) by (auto simp: list_all_iff)
  then have t: "trim s = s" by (rule no_space_trim)
  let ?u = "toUpperCase s"
  have u: "?u = map toUpperChar s" using chars by (rule toUpperCase_plain)
  obtain k where k: "k < length s" "length s \<le> k + 2" "isDigit (s ! k)"
    using bare_outcode_late_digit [OF assms] by blast
  have dk: "isDigit (?u ! k)"
    using k char_facts(4) by (simp add: u)
  have "OUTCODE_REGEX_matches ?u = []"
  proof (rule ccontr)
    assume "OUTCODE_REGEX_matches ?u \<noteq> []"
    then obtain g where "g \<in> set (OUTCODE_REGEX_matches ?u)"
      by (cases "OUTCODE_REGEX_matches ?u") auto
    then obtain w i where eq: "?u = g @ w @ i" and inc: "incode isAZ_i i"
      using match_shape by blast
    note L = incode_last_letters [OF eq inc]
    have "k < length ?u \<and> length ?u \<le> k + 2"
      using k(1,2) by (simp add: u)
    then have "isAZ_i (?u ! k)" using L by blast
    then show False using dk char_facts(1) by blast
  qed
  then show ?thesis
    using ne by (simp add: extractOutcodeFromPostcode_def OUTCODE_REGEX_match_def t)
qed

lemma bare_outcode_plain:
  assumes "bare_outcode s"
  shows "trim s = s" and "plain_text s"
proof -
  have chars: "list_all (\<lambda>c. isAZ_i c \<or> isDigit c) s"
    using assms by (rule bare_outcode_chars)
  have "list_all (\<lambda>c. \<not> isSpace c) s"
    using chars char_facts(1,2) by (auto simp: list_all_iff)
  then show "trim s = s" by (rule no_space_trim)
  show "plain_text s"
    using chars fold_facts(2) by (auto simp: plain_text_def list_all_iff)
qed

text \<open>
  Claim C2, as amended. A text that is only a bare outcode is not recognised as one: it
  does not match the full-postcode pattern and is resolved as an area name. While the
  queries succeed, the result holds the outcodes of the reference rows one of whose
  area fields contains the text (one for each outcode up to letter case), so it is empty
  when no field contains it, and it includes the text itself only when such a row
  carries it as its outcode.
\<close>

theorem bare_outcode_as_area_text:
  assumes "bare_outcode s"
      and "reachable p"
      and "os_open_names p = Some rows"
      and "postcode_district_stats p = Some srows"
  shows "extractOutcodeFromPostcode s = None
         \<and> (\<exists>r. resolveTargeting h p s = Inr r
               \<and> set (postal_codes r) \<subseteq> set (area_outcodes rows s)
               \<and> collation_key ` set (postal_codes r) = collation_key ` set (area_outcodes rows s))"
proof -
  have none: "extractOutcodeFromPostcode s = None"
    using assms(1) by (rule bare_outcode_no_match)
  have t: "trim s = s" and plain: "plain_text s"
    using assms(1) by (rule bare_outcode_plain)+
  have ne: "s \<noteq> []"
    using assms(1) by (rule bare_outcode_chars)
  have "\<exists>r. resolveTargeting h p s = Inr r
           \<and> sorted (postal_codes r) \<and> distinct (postal_codes r)
           \<and> set (postal_codes r) \<subseteq> set (area_outcodes rows (trim s))
           \<and> collation_key ` set (postal_codes r) =
               collation_key ` set (area_outcodes rows (trim s))"
    using none ne plain assms(2-4) by (intro area_path_result) (simp_all add: t)
  then show ?thesis
    using none by (auto simp: t)
qed

theorem bare_outcode_as_area_text_witness:
  "bare_outcode ''KA10''
   \<and> reachable ayrshire_pool
   \<and> os_open_names ayrshire_pool =
       Some [county_row ''KA11'' ''Ayrshire'', county_row ''G64'' ''Ayrshire'',
             county_row ''KA10'' ''Ayrshire'']
   \<and> extractOutcodeFromPostcode ''KA10'' = None
   \<and> area_outcodes [county_row ''KA11'' ''Ayrshire'', county_row ''G64'' ''Ayrshire'',
        county_row ''KA10'' ''Ayrshire''] ''KA10'' = []
   \<and> (\<exists>r. resolveTargeting example_host ayrshire_pool ''KA10'' = Inr r \<and> postal_codes r = [])"
proof -
  let ?rows = "[county_row ''KA11'' ''Ayrshire'', county_row ''G64'' ''Ayrshire'',
        county_row ''KA10'' ''Ayrshire'']"
  have h1: "bare_outcode ''KA10''"
    and a: "area_outcodes ?rows ''KA10'' = []"
    by code_simp+
  have h2: "reachable ayrshire_pool" and h3: "os_open_names ayrshire_pool = Some ?rows"
    and h4: "postcode_district_stats ayrshire_pool =
         Some [\<lparr> row_outcode = ''KA11'', row_approx_radius_km = Numeric 4,
                 row_approx_diameter_km = Numeric 8, row_centroid_easting_m = Numeric 235000,
                 row_centroid_northing_m = Numeric 640000 \<rparr>,
               \<lparr> row_outcode = ''KA10'', row_approx_radius_km = Numeric 3,
                 row_approx_diameter_km = Numeric 6, row_centroid_easting_m = Numeric 233000,
                 row_centroid_northing_m = Numeric 631000 \<rparr>]"
    by (simp_all add: ayrshire_pool_def)
  show ?thesis
    using h1 h2 h3 a bare_outcode_as_area_text [OF h1 h2 h3 h4, of example_host]
    by auto
qed

subsection \<open>Texts with wildcards\<close>

lemma collation_key_idem: "collation_key (map toUpperChar s) = collation_key s"
  using char_facts(7) by (simp add: collation_key_def)

lemma sql_like_UPPER: "sql_like (map_option UPPER f) (UPPER pat) = sql_like f pat"
  by (cases f) (simp_all add: sql_like_def UPPER_def collation_key_idem)

lemma toUpperCase_by_key:
  "toUpperCase s = concat (map (\<lambda>u. if u = CHR 0xDF then ''SS'' else [u]) (collation_key s))"
proof -
  have "(if c = CHR 0xDF then ''SS'' else [toUpperChar c]) =
      (if toUpperChar c = CHR 0xDF then ''SS'' else [toUpperChar c])" for c
    using char_facts(8) by simp
  then show ?thesis
    by (simp add: toUpperCase_def collation_key_def comp_def)
qed

lemma same_key_same_upper:
  assumes "map_option collation_key y = map_option collation_key y'"
  shows "toUpperCase (String_of y) = toUpperCase (String_of y')"
proof (cases y)
  case None
  then show ?thesis using assms by simp
next
  case (Some s)
  then obtain s' where "y' = Some s'" "collation_key s = collation_key s'"
    using assms by (cases y') auto
  then show ?thesis
    using Some by (simp add: String_of_def toUpperCase_by_key)
qed

lemma image_distinct_by_coarser:
  assumes "\<And>y y'. k y = k y' \<Longrightarrow> f y = f y'"
  shows "f ` set (distinct_by k ys) = f ` set ys"
proof
  show "f ` set (distinct_by k ys) \<subseteq> f ` set ys"
    using set_distinct_by [of k ys] by blast
  show "f ` set ys \<subseteq> f ` set (distinct_by k ys)"
  proof
    fix v assume "v \<in> f ` set ys"
    then obtain y where y: "y \<in> set ys" "v = f y" by blast
    then have "k y \<in> k ` set (distinct_by k ys)"
      by (simp add: image_distinct_by)
    then obtain y' where "y' \<in> set (distinct_by k ys)" "k y' = k y" by auto
    then show "v \<in> f ` set (distinct_by k ys)"
      using y(2) assms by (metis image_eqI)
  qed
qed

lemma getDistrictsByCounty_set:
  assumes "trim t \<noteq> []" "reachable p" "os_open_names p = Some rows"
  shows "set (getDistrictsByCounty p t) =
           (\<lambda>r. toUpperCase (String_of (POSTCODE_DISTRICT r))) `
             {r \<in> set rows. sql_like (COUNTY_UNITARY r) (needle t)}"
proof -
  let ?f = "\<lambda>d. toUpperCase (String_of d)"
  let ?k = "map_option collation_key"
  let ?ys = "map POSTCODE_DISTRICT (filter (\<lambda>r. sql_like (COUNTY_UNITARY r) (needle t)) rows)"
  have ne: "t \<noteq> []" using assms(1) by (auto simp: trim_def)
  have "getDistrictsByCounty p t = map ?f (sort_key ?k (distinct_by ?k ?ys))"
    using assms ne
    by (simp add: getDistrictsByCounty_def query_os_open_names_def sql_like_UPPER)
  then have "set (getDistrictsByCounty p t) = ?f ` set (distinct_by ?k ?ys)"
    by simp
  also have "\<dots> = ?f ` set ?ys"
    using same_key_same_upper by (rule image_distinct_by_coarser)
  also have "\<dots> = (\<lambda>r. toUpperCase (String_of (POSTCODE_DISTRICT r))) `
             {r \<in> set rows. sql_like (COUNTY_UNITARY r) (needle t)}"
    by (auto simp: image_iff)
  finally show ?thesis .
qed

lemma set_area_selection:
  "set (concat (map (area_select t) rows)) =
     {d. \<exists>r \<in> set rows. POSTCODE_DISTRICT r = Some d \<and> d \<noteq> []
          \<and> (sql_like (COUNTY_UNITARY r) (CHR ''%'' # t @ [CHR ''%''])
             \<or> sql_like (DISTRICT_BOROUGH r) (CHR ''%'' # t @ [CHR ''%''])
             \<or> sql_like (REGION r) (CHR ''%'' # t @ [CHR ''%'']))}"
  by (auto simp: in_area_select area_pattern_def)

text \<open>
  Claim C8, as amended. For a text with a percent sign, \<open>getDistrictsByCounty\<close> takes the
  trimmed text itself as the pattern: it returns the upper-cased districts of the rows
  whose county matches that pattern. \<open>expandAreaToOutcodes\<close>, the expansion of the
  resolver, does not look for a percent sign: it puts the text between a further pair of
  percent signs and returns outcodes of the rows one of whose three fields matches that
  longer pattern, one for each outcode up to letter case.
\<close>

theorem wildcard_text_patterns:
  assumes "CHR ''%'' \<in> set t"
      and "trim t \<noteq> []"
      and "reachable p"
      and "os_open_names p = Some rows"
  shows "set (getDistrictsByCounty p t) =
           (\<lambda>r. toUpperCase (String_of (POSTCODE_DISTRICT r))) `
             {r \<in> set rows. sql_like (COUNTY_UNITARY r) (trim t)}
         \<and> (\<exists>expanded. expandAreaToOutcodes p t = Inr expanded
               \<and> set expanded \<subseteq>
                   {d. \<exists>r \<in> set rows. POSTCODE_DISTRICT r = Some d \<and> d \<noteq> []
                        \<and> (sql_like (COUNTY_UNITARY r) (CHR ''%'' # t @ [CHR ''%''])
                           \<or> sql_like (DISTRICT_BOROUGH r) (CHR ''%'' # t @ [CHR ''%''])
                           \<or> sql_like (REGION r) (CHR ''%'' # t @ [CHR ''%'']))}
               \<and> collation_key ` set expanded =
                   collation_key `
                   {d. \<exists>r \<in> set rows. POSTCODE_DISTRICT r = Some d \<and> d \<noteq> []
                        \<and> (sql_like (COUNTY_UNITARY r) (CHR ''%'' # t @ [CHR ''%''])
                           \<or> sql_like (DISTRICT_BOROUGH r) (CHR ''%'' # t @ [CHR ''%''])
                           \<or> sql_like (REGION r) (CHR ''%'' # t @ [CHR ''%'']))})"
proof -
  have "needle t = trim t"
    using assms(1) by (simp add: needle_def)
  then have first: "set (getDistrictsByCounty p t) =
           (\<lambda>r. toUpperCase (String_of (POSTCODE_DISTRICT r))) `
             {r \<in> set rows. sql_like (COUNTY_UNITARY r) (trim t)}"
    using getDistrictsByCounty_set [OF assms(2-4)] by simp
  obtain expanded where ex: "expandAreaToOutcodes p t = Inr expanded"
    using assms(3,4) by (simp add: expandAreaToOutcodes_def query_os_open_names_def)
  obtain rows' where "os_open_names p = Some rows'"
    "set expanded \<subseteq> set (concat (map (area_select t) rows'))"
    "collation_key ` set expanded = collation_key ` set (concat (map (area_select t) rows'))"
    using ex by (rule expandAreaToOutcodes_result)
  then have "set expanded \<subseteq> set (concat (map (area_select t) rows))"
    "collation_key ` set expanded = collation_key ` set (concat (map (area_select t) rows))"
    using assms(4) by simp_all
  then show ?thesis
    using first ex unfolding set_area_selection by blast
qed

theorem wildcard_text_patterns_witness:
  "CHR ''%'' \<in> set ''AYR%''
   \<and> trim ''AYR%'' = ''AYR%''
   \<and> reachable untidy_pool
   \<and> os_open_names untidy_pool = Some [county_row ''ka10'' ''South Ayrshire'']
   \<and> \<not> sql_like (Some ''South Ayrshire'') ''AYR%''
   \<and> getDistrictsByCounty untidy_pool ''AYR%'' = []
   \<and> sql_like (Some ''South Ayrshire'') ''%AYR%%''
   \<and> expandAreaToOutcodes untidy_pool ''AYR%'' = Inr [''ka10'']
   \<and> sql_like (Some ''South Ayrshire'') ''%AYR%''
   \<and> getDistrictsByCounty untidy_pool ''%AYR%'' = [''KA10'']"
proof -
  have h1: "CHR ''%'' \<in> set ''AYR%''" by simp
  have t: "trim ''AYR%'' = ''AYR%''"
    and n: "\<not> sql_like (Some ''South Ayrshire'') ''AYR%''"
    and y: "sql_like (Some ''South Ayrshire'') ''%AYR%%''"
      "sql_like (Some ''South Ayrshire'') ''%AYR%''"
    and e: "expandAreaToOutcodes untidy_pool ''AYR%'' = Inr [''ka10'']"
    and g: "getDistrictsByCounty untidy_pool ''%AYR%'' = [''KA10'']"
    by code_simp+
  have h2: "trim ''AYR%'' \<noteq> []" by (simp add: t)
  have h3: "reachable untidy_pool"
    and h4: "os_open_names untidy_pool = Some [county_row ''ka10'' ''South Ayrshire'']"
    by (simp_all add: untidy_pool_def)
  have "{r \<in> set [county_row ''ka10'' ''South Ayrshire'']. sql_like (COUNTY_UNITARY r) (trim ''AYR%'')}
          = {}"
    using n by (auto simp: t county_row_def)
  then have "set (getDistrictsByCounty untidy_pool ''AYR%'') = {}"
    using wildcard_text_patterns [OF h1 h2 h3 h4] by simp
  then have "getDistrictsByCounty untidy_pool ''AYR%'' = []"
    by simp
  then show ?thesis
    using h1 t h3 h4 n y e g by blast
qed

subsection \<open>Postcodes of the standard shape\<close>

lemma dropWhile_spaces_then:
  assumes "list_all isSpace pre" "ys \<noteq> []" "\<not> isSpace (hd ys)"
  shows "dropWhile isSpace (pre @ ys) = ys"
proof -
  have "dropWhile isSpace (pre @ ys) = dropWhile isSpace ys"
    using assms(1) by (simp add: list_all_iff dropWhile_append2)
  also have "\<dots> = ys" using assms(2,3) by (cases ys) simp_all
  finally show ?thesis .
qed

lemma trim_core:
  assumes "list_all isSpace pre" "list_all isSpace post" "core \<noteq> []"
      and "\<not> isSpace (hd core)" "\<not> isSpace (last core)"
  shows "trim (pre @ core @ post) = core"
proof -
  have "dropWhile isSpace (pre @ core @ post) = core @ post"
    using assms(1,3,4) by (intro dropWhile_spaces_then) simp_all
  moreover have "dropWhile isSpace (rev post @ rev core) = rev core"
    using assms(2,3,5) by (intro dropWhile_spaces_then) (simp_all add: hd_rev list_all_iff)
  ultimately show ?thesis by (simp add: trim_def)
qed

lemma takeWhile_no_space:
  assumes "list_all (\<lambda>c. \<not> isSpace c) g" "list_all isSpace w"
  shows "takeWhile (\<lambda>c. \<not> isSpace c) (g @ w) = g"
proof -
  have "takeWhile (\<lambda>c. \<not> isSpace c) w = []"
    using assms(2) by (cases w) simp_all
  then show ?thesis
    using assms(1) by (simp add: list_all_iff takeWhile_append2)
qed

lemma toUpperCase_classes:
  assumes "list_all (\<lambda>c. isAZ_i c \<or> isDigit c \<or> isSpace c) s"
  shows "toUpperCase s = map toUpperChar s"
proof -
  have "\<forall>c \<in> set s. c \<noteq> CHR 0xDF"
    using assms char_facts(3,4,5) by (auto simp: list_all_iff)
  then have eq: "map (\<lambda>c. if c = CHR 0xDF then ''SS'' else [toUpperChar c]) s =
      map (\<lambda>c. [toUpperChar c]) s"
    by simp
  show ?thesis
    unfolding toUpperCase_def by (simp only: eq concat_map_singleton)
qed

lemma incode_chars:
  "incode isAZ_i i \<longleftrightarrow> (\<exists>x y z. i = [x, y, z] \<and> isDigit x \<and> isAZ_i y \<and> isAZ_i z)"
  by (auto simp: incode_def split: list.splits)

text \<open>
  A text of the standard shape, upper-cased: its group 1 is the part before the optional
  white space and the incode, and no other way to match gives another group.
\<close>

lemma standard_shape_matches:
  assumes "list_all isAZ_i A" "1 \<le> length A" "length A \<le> 2"
      and "list_all isDigit D" "1 \<le> length D" "length D \<le> 2"
      and "list_all isAZ_i L" "length L \<le> 1"
      and "list_all isSpace W" "length W \<le> 1"
      and "incode isAZ_i I"
  shows "OUTCODE_REGEX_match (A @ D @ L @ W @ I) = Some (A @ D @ L)"
proof -
  let ?u = "A @ D @ L @ W @ I"
  let ?T = "A @ D @ L"
  have lenI: "length I = 3" using assms(11) by (auto simp: incode_chars)
  have mem: "?T \<in> set (OUTCODE_REGEX_matches ?u)"
    unfolding in_OUTCODE_REGEX_matches
  proof (intro bexI conjI)
    show "length A \<in> set (quant isAZ_i 1 2 ?u)"
      using assms(1-3) by (simp add: in_quant)
    show "length D \<in> set (quant isDigit 1 2 (drop (length A) ?u))"
      using assms(4-6) by (simp add: in_quant)
    show "length L \<in> set (quant isAZ_i 0 1 (drop (length A + length D) ?u))"
      using assms(7,8) by (simp add: in_quant)
    show "length W \<in> set (quant isSpace 0 1 (drop (length A + length D + length L) ?u))"
      using assms(9,10) by (simp add: in_quant)
    show "incode isAZ_i (drop (length A + length D + length L + length W) ?u)"
      using assms(11) by simp
    show "?T = take (length A + length D + length L) ?u"
      by simp
  qed
  have Tns: "list_all (\<lambda>c. \<not> isSpace c) ?T"
    using assms(1,4,7) char_facts(1,2) by (auto simp: list_all_iff)
  have only: "g = ?T" if gm: "g \<in> set (OUTCODE_REGEX_matches ?u)" for g
  proof -
    obtain w i where s: "?u = g @ w @ i" and w: "list_all isSpace w" and i: "incode isAZ_i i"
      and g: "list_all (\<lambda>c. isAZ_i c \<or> isDigit c) g"
      using match_shape [OF gm] by blast
    have "length i = 3" using i by (auto simp: incode_chars)
    then have "(g @ w) @ i = (?T @ W) @ I \<and> length i = length I"
      using s lenI by simp
    then have gw: "g @ w = ?T @ W"
      by (metis append_eq_append_conv)
    have "list_all (\<lambda>c. \<not> isSpace c) g"
      using g char_facts(1,2) by (auto simp: list_all_iff)
    then have "g = takeWhile (\<lambda>c. \<not> isSpace c) (g @ w)"
      using w by (simp add: takeWhile_no_space)
    also have "\<dots> = takeWhile (\<lambda>c. \<not> isSpace c) (?T @ W)"
      by (simp only: gw)
    also have "\<dots> = ?T"
      using Tns assms(9) by (rule takeWhile_no_space)
    finally show ?thesis .
  qed
  obtain g gs where gs: "OUTCODE_REGEX_matches ?u = g # gs"
    using mem by (cases "OUTCODE_REGEX_matches ?u") auto
  then have "g = ?T" using only by simp
  then show ?thesis using gs by (simp add: OUTCODE_REGEX_match_def)
qed

lemma upper_classes:
  "list_all isAZ_i xs \<Longrightarrow> list_all isAZ_i (map toUpperChar xs)"
  "list_all isDigit xs \<Longrightarrow> list_all isDigit (map toUpperChar xs)"
  "list_all isSpace xs \<Longrightarrow> list_all isSpace (map toUpperChar xs)"
  using char_facts(3,4,5) by (auto simp: list_all_iff isAZ_def isAZ_i_def)

lemma upper_incode: "incode isAZ_i i \<Longrightarrow> incode isAZ_i (map toUpperChar i)"
  using char_facts(3,4) by (auto simp: incode_chars isAZ_def isAZ_i_def)

text \<open>
  For the standard shapes of a postcode claim C1 holds: one or two letters, one or two
  digits, an optional letter, an optional white-space character, a digit and two letters,
  in any letter case and with any white space around. The outcode extracted is the part
  before the incode in capitals, and with the statistics query answered it is the one
  element of \<open>postal_codes\<close>.
\<close>

lemma standard_postcode_resolves:
  assumes "list_all isAZ_i A" "1 \<le> length A" "length A \<le> 2"
      and "list_all isDigit D" "1 \<le> length D" "length D \<le> 2"
      and "list_all isAZ_i L" "length L \<le> 1"
      and "list_all isSpace W" "length W \<le> 1"
      and "incode isAZ_i I"
      and "list_all isSpace pre" "list_all isSpace post"
      and "reachable p" "postcode_district_stats p = Some srows"
  shows "extractOutcodeFromPostcode (pre @ (A @ D @ L @ W @ I) @ post) =
           Some (map toUpperChar (A @ D @ L))
         \<and> (\<exists>r. resolveTargeting h p (pre @ (A @ D @ L @ W @ I) @ post) = Inr r
               \<and> postal_codes r = [map toUpperChar (A @ D @ L)])"
proof -
  let ?core = "A @ D @ L @ W @ I"
  let ?x = "pre @ ?core @ post"
  let ?oc = "map toUpperChar (A @ D @ L)"
  obtain a A' where A: "A = a # A'" using assms(2) by (cases A) auto
  obtain x y z where I: "I = [x, y, z]" "isAZ_i z"
    using assms(11) by (auto simp: incode_chars)
  have ne: "?core \<noteq> []" "?x \<noteq> []" using A by simp_all
  have "hd ?core = a" "last ?core = z" using A I by simp_all
  moreover have "isAZ_i a" using assms(1) A by simp
  ultimately have ends: "\<not> isSpace (hd ?core)" "\<not> isSpace (last ?core)"
    using I(2) char_facts(1) by auto
  have t: "trim ?x = ?core"
    using assms(12,13) ne(1) ends by (rule trim_core)
  have cls: "list_all (\<lambda>c. isAZ_i c \<or> isDigit c \<or> isSpace c) ?core"
    using assms(1,4,7,9) I assms(11) by (auto simp: list_all_iff incode_chars)
  have u: "toUpperCase ?core = map toUpperChar A @ map toUpperChar D @ map toUpperChar L
             @ map toUpperChar W @ map toUpperChar I"
    using toUpperCase_classes [OF cls] by simp
  have m: "OUTCODE_REGEX_match (toUpperCase ?core) =
          Some (map toUpperChar A @ map toUpperChar D @ map toUpperChar L)"
    unfolding u using assms(1-11)
    by (intro standard_shape_matches upper_classes upper_incode) simp_all
  have ext: "extractOutcodeFromPostcode ?x = Some ?oc"
    unfolding extractOutcodeFromPostcode_def t using ne(2) m by simp
  have "\<exists>stats. fetchOutcodeStats h p [?oc] = Inr stats"
    using query_stats_Inr [OF assms(14,15)] by (simp add: fetchOutcodeStats_def)
  then obtain stats where st: "fetchOutcodeStats h p [?oc] = Inr stats" by blast
  have "\<exists>r. resolveTargeting h p ?x = Inr r \<and> postal_codes r = [?oc]"
  proof (cases "stats ?oc")
    case None
    then have "resolveTargeting h p ?x = Inr (result (serialize h [?oc] []))"
      using ext st by (simp add: resolveTargeting_def)
    then show ?thesis by (simp add: postal_codes_serialize from_Set_def)
  next
    case (Some it)
    then have "resolveTargeting h p ?x = Inr (result (serialize h [?oc] [it]))"
      using ext st by (simp add: resolveTargeting_def)
    then show ?thesis by (simp add: postal_codes_serialize from_Set_def)
  qed
  then show ?thesis using ext by blast
qed

end
